theory Spec2Isabelle
  imports Complex_Main "HOL-Library.AList" "HOL-Library.Log_Nat"
begin


section \<open>Data model of the buzzer server (src/server/index.js)\<close>

text \<open>
  Connection identities, room codes and team ids are JavaScript strings. Times are the
  integer milliseconds of \<^verbatim>\<open>Date.now()\<close>. Scores and ledger deltas are
  JavaScript numbers, that is doubles: the bonus handler accepts any finite number between 0
  and 20. A finite double is a rational, and \<^verbatim>\<open>+=\<close> on two of them is \<open>jsAdd\<close> below:
  the exact sum, rounded to the nearest double.
\<close>

type_synonym socketId = string
type_synonym roomCode = string
type_synonym teamId = string

datatype phase = lobby | tossup_reading | tossup_live | tossup_closed | bonus_reading | bonus_live

datatype timerMode = tossup | bonus

text \<open>The value of \<^verbatim>\<open>Number(x)\<close> for a payload field \<open>x\<close>.\<close>

datatype jsNumber = Finite rat | NotFinite

record settings =
  tossupSeconds :: int
  bonusSeconds :: int

record team =
  team_id :: teamId
  team_name :: string
  score :: rat

record player =
  socketId :: socketId
  name :: string
  teamId :: "teamId option"
  isHost :: bool
  isSpectator :: bool

datatype buzz =
  Unlocked
  | Locked (winnerSocketId: socketId) (winnerName: string) (winnerTeamId: teamId)
      (buzzed_at: int) (interruptChoice: "bool option")

record timer =
  mode :: timerMode
  running :: bool
  remainingMs :: int
  endsAtMs :: int

text \<open>
  One ledger cell \<^verbatim>\<open>{ p, tu, b, score }\<close> and the field selector that
  \<^verbatim>\<open>addRowDelta\<close> receives as a string.
\<close>

record cell =
  p_delta :: rat
  tu_delta :: rat
  b_delta :: rat
  row_score :: rat

datatype field = Field_p | Field_tu | Field_b

record row =
  num :: int
  row_teams :: "(teamId \<times> cell) list"

record match =
  tossupNumber :: int
  rows :: "row list"

text \<open>
  A room. The JavaScript \<^verbatim>\<open>Map\<close>s keep insertion order and are association lists
  (\<^verbatim>\<open>set\<close> is \<^const>\<open>AList.update\<close>, \<^verbatim>\<open>delete\<close> is \<^const>\<open>AList.delete\<close>);
  the \<^verbatim>\<open>Set\<close> of locked-out teams is a list without repetition. Every room literal of
  the source carries a \<^verbatim>\<open>match\<close> object and nothing ever unsets it, so the field is
  not optional and \<^verbatim>\<open>ensureMatch\<close> has nothing to do.
\<close>

record room =
  code :: roomCode
  roomName :: string
  hostSocketId :: socketId
  settings :: settings
  teams :: "(teamId \<times> team) list"
  players :: "(socketId \<times> player) list"
  phase :: phase
  activeBonusTeamId :: "teamId option"
  tossupLockedTeams :: "teamId list"
  buzz :: buzz
  timer :: timer
  tossupEndTimeout :: "nat option"
  match :: match

text \<open>
  The timer queue of the runtime, as far as this program uses it: every pending timeout is
  a toss-up end callback, known by its handle, the code of the room object it captured and
  the time it is due. \<^verbatim>\<open>setTimeout\<close> hands out fresh handles.
\<close>

record scheduler =
  pending :: "(nat \<times> roomCode \<times> int) list"
  nextTimeoutId :: nat

record world =
  rooms :: "(roomCode \<times> room) list"
  sched :: scheduler

text \<open>What \<^verbatim>\<open>publicState\<close> returns.\<close>

record publicState =
  pub_code :: roomCode
  pub_roomName :: string
  pub_hostSocketId :: socketId
  pub_settings :: settings
  pub_teams :: "team list"
  pub_players :: "player list"
  pub_phase :: phase
  pub_activeBonusTeamId :: "teamId option"
  pub_buzz :: buzz
  pub_timer :: timer
  pub_tossupLockedTeams :: "teamId list"
  pub_match :: match

text \<open>
  What a handler sends out: \<^verbatim>\<open>socket.join\<close>, \<^verbatim>\<open>socket.emit\<close> to the
  originating connection, and \<^verbatim>\<open>io.to(code).emit\<close> to the subscribers of a room.
\<close>

datatype effect =
  SocketJoin socketId roomCode
  | EmitErrorMsg socketId string
  | EmitRoomCreated socketId roomCode
  | BroadcastState roomCode publicState
  | BroadcastErrorMsg roomCode string

section \<open>Strings and numbers\<close>

text \<open>
  The built-in string functions \<^verbatim>\<open>toUpperCase\<close> and \<^verbatim>\<open>trim\<close> depend on
  the Unicode tables of the runtime and are not modelled. Every command below carries its
  strings as they are after these two: a room code stands for the value of
  \<^verbatim>\<open>String(code || "").toUpperCase().trim()\<close>, with which each handler of a room
  begins, and a name for the trimmed text the handler goes on with. What the handlers do
  with these values (the test for the empty string, \<^verbatim>\<open>slice(0, n)\<close>, the defaults) is
  part of the model.
\<close>

text \<open>\<^verbatim>\<open>Math.round\<close>: the nearest integer, halves upwards.\<close>

definition mathRound :: "rat \<Rightarrow> int" where
  "mathRound x = \<lfloor>x + 1 / 2\<rfloor>"

text \<open>
  Addition of doubles (IEEE 754 binary64, round to nearest, ties to even): the exact sum is
  scaled so that its integer part has 53 binary digits, rounded to an integer, and scaled
  back. \<open>ilog2 x\<close> is the exponent \<open>e\<close> with \<open>2 ^ e \<le> x < 2 ^ (e + 1)\<close>, found from the bit
  lengths of numerator and denominator. The exponent range is not bounded: a sum of two
  doubles that is too small for a normal double is exact both here and there, and the
  overflow to \<^verbatim>\<open>Infinity\<close>, which needs a score above \<open>2 ^ 1023\<close> built from
  summands of at most 20, is left out.
\<close>

definition pow2 :: "int \<Rightarrow> rat" where
  "pow2 k = (if 0 \<le> k then 2 ^ nat k else 1 / 2 ^ nat (- k))"

definition ilog2 :: "rat \<Rightarrow> int" where
  "ilog2 x =
     (let k = bitlen (fst (quotient_of x)) - bitlen (snd (quotient_of x))
      in if pow2 k \<le> x then k else k - 1)"

definition roundHalfEven :: "rat \<Rightarrow> int" where
  "roundHalfEven m =
     (let f = \<lfloor>m\<rfloor>; d = m - of_int f
      in if d < 1 / 2 then f else if 1 / 2 < d then f + 1 else if even f then f else f + 1)"

definition roundToDouble :: "rat \<Rightarrow> rat" where
  "roundToDouble x =
     (if x = 0 then 0
      else let u = pow2 (ilog2 \<bar>x\<bar> - 52)
           in sgn x * of_int (roundHalfEven (\<bar>x\<bar> / u)) * u)"

definition jsAdd :: "rat \<Rightarrow> rat \<Rightarrow> rat" where
  "jsAdd x y = roundToDouble (x + y)"

section \<open>Room codes\<close>

definition alphabet :: string where
  "alphabet = ''ABCDEFGHJKLMNPQRSTUVWXYZ23456789''"

text \<open>
  \<^verbatim>\<open>genCode\<close>. The argument gives, for each of the six rounds of the loop, the value
  of \<^verbatim>\<open>Math.floor(Math.random() * alphabet.length)\<close>, a number below 32; it is reduced
  modulo the length so that every draw is one.
\<close>

definition genCode :: "(nat \<Rightarrow> nat) \<Rightarrow> roomCode" where
  "genCode rnd = map (\<lambda>i. alphabet ! (rnd i mod length alphabet)) [0..<6]"

section \<open>Timer helpers\<close>

definition computeTimerSnapshot :: "room \<Rightarrow> int \<Rightarrow> timer" where
  "computeTimerSnapshot room now =
     (let t = timer room in
      if \<not> running t then \<lparr>mode = mode t, running = False, remainingMs = remainingMs t, endsAtMs = 0\<rparr>
      else
        let remaining = max 0 (endsAtMs t - now);
            running' = (remaining > 0)
        in \<lparr>mode = mode t, running = running', remainingMs = remaining,
            endsAtMs = (if running' then endsAtMs t else 0)\<rparr>)"

definition setTimer :: "timerMode \<Rightarrow> int \<Rightarrow> bool \<Rightarrow> int \<Rightarrow> room \<Rightarrow> room" where
  "setTimer m seconds run now room =
     (let ms = seconds * 1000 in
      if run
      then room\<lparr>timer := \<lparr>mode = m, running = True, remainingMs = ms, endsAtMs = now + ms\<rparr>\<rparr>
      else room\<lparr>timer := \<lparr>mode = m, running = False, remainingMs = ms, endsAtMs = 0\<rparr>\<rparr>)"

definition resetTimerFull :: "timerMode \<Rightarrow> bool \<Rightarrow> int \<Rightarrow> room \<Rightarrow> room" where
  "resetTimerFull m run now room =
     (let seconds = (if m = tossup then tossupSeconds (settings room)
                     else bonusSeconds (settings room))
      in setTimer m seconds run now room)"

definition stopTimer :: "int \<Rightarrow> room \<Rightarrow> room" where
  "stopTimer now room =
     (if \<not> running (timer room) then room
      else room\<lparr>timer := (timer room)\<lparr>remainingMs := max 0 (endsAtMs (timer room) - now),
                                      running := False, endsAtMs := 0\<rparr>\<rparr>)"

section \<open>Toss-up end timeout\<close>

definition clearTossupEndTimeout :: "room \<times> scheduler \<Rightarrow> room \<times> scheduler" where
  "clearTossupEndTimeout rs =
     (case tossupEndTimeout (fst rs) of
        None \<Rightarrow> rs
      | Some h \<Rightarrow> ((fst rs)\<lparr>tossupEndTimeout := None\<rparr>,
                   (snd rs)\<lparr>pending := AList.delete h (pending (snd rs))\<rparr>))"

text \<open>
  \<^verbatim>\<open>scheduleTossupEnd\<close>: the callback is queued under a fresh handle, due
  \<^verbatim>\<open>ms + 15\<close> after now; it keeps the room's code, by which it looks the room up again
  when it runs (\<open>tossupEndCallback\<close> below).
\<close>

definition scheduleTossupEnd :: "int \<Rightarrow> room \<times> scheduler \<Rightarrow> room \<times> scheduler" where
  "scheduleTossupEnd now rs =
     (let (room, s) = clearTossupEndTimeout rs;
          ms = remainingMs (timer room);
          h = nextTimeoutId s
      in (room\<lparr>tossupEndTimeout := Some h\<rparr>,
          s\<lparr>pending := pending s @ [(h, code room, now + ms + 15)], nextTimeoutId := h + 1\<rparr>))"

section \<open>Match log\<close>

definition startNewTossupRow :: "room \<Rightarrow> room" where
  "startNewTossupRow room =
     (let n = tossupNumber (match room) + 1;
          cells = map (\<lambda>(i, t). (i, \<lparr>p_delta = 0, tu_delta = 0, b_delta = 0, row_score = score t\<rparr>))
                      (teams room)
      in room\<lparr>match := \<lparr>tossupNumber = n,
                          rows = rows (match room) @ [\<lparr>num = n, row_teams = cells\<rparr>]\<rparr>\<rparr>)"

definition currentRow :: "room \<Rightarrow> row option" where
  "currentRow room = (if rows (match room) = [] then None else Some (last (rows (match room))))"

text \<open>The row that \<^verbatim>\<open>currentRow\<close> returned, mutated in place.\<close>

definition setCurrentRow :: "row \<Rightarrow> room \<Rightarrow> room" where
  "setCurrentRow r room =
     room\<lparr>match := (match room)\<lparr>rows := butlast (rows (match room)) @ [r]\<rparr>\<rparr>"

definition addField :: "field \<Rightarrow> rat \<Rightarrow> cell \<Rightarrow> cell" where
  "addField f points c =
     (case f of
        Field_p \<Rightarrow> c\<lparr>p_delta := jsAdd (p_delta c) points\<rparr>
      | Field_tu \<Rightarrow> c\<lparr>tu_delta := jsAdd (tu_delta c) points\<rparr>
      | Field_b \<Rightarrow> c\<lparr>b_delta := jsAdd (b_delta c) points\<rparr>)"

definition addRowDelta :: "teamId \<Rightarrow> field \<Rightarrow> rat \<Rightarrow> room \<Rightarrow> room" where
  "addRowDelta tid f points room =
     (case currentRow room of
        None \<Rightarrow> room
      | Some r \<Rightarrow>
          (case map_of (row_teams r) tid of
             None \<Rightarrow> room
           | Some c \<Rightarrow>
               setCurrentRow (r\<lparr>row_teams := AList.update tid (addField f points c) (row_teams r)\<rparr>)
                 room))"

definition refreshCell :: "(teamId \<times> cell) list \<Rightarrow> teamId \<times> team \<Rightarrow> (teamId \<times> cell) list" where
  "refreshCell cells e =
     (case map_of cells (fst e) of
        None \<Rightarrow> cells
      | Some c \<Rightarrow> AList.update (fst e) (c\<lparr>row_score := score (snd e)\<rparr>) cells)"

definition refreshRowScores :: "room \<Rightarrow> room" where
  "refreshRowScores room =
     (case currentRow room of
        None \<Rightarrow> room
      | Some r \<Rightarrow>
          setCurrentRow (r\<lparr>row_teams := foldl refreshCell (row_teams r) (teams room)\<rparr>) room)"

section \<open>Buzz helpers\<close>

definition clearBuzz :: "room \<Rightarrow> room" where
  "clearBuzz room = room\<lparr>buzz := Unlocked\<rparr>"

definition otherTeamId :: "room \<Rightarrow> teamId \<Rightarrow> teamId option" where
  "otherTeamId room tid =
     (case find (\<lambda>i. i \<noteq> tid) (map fst (teams room)) of
        None \<Rightarrow> None
      | Some i \<Rightarrow> if i = [] then None else Some i)"

text \<open>\<^verbatim>\<open>team.score += points\<close> on the team object stored under \<open>tid\<close>.\<close>

definition addScore :: "teamId \<Rightarrow> rat \<Rightarrow> room \<Rightarrow> room" where
  "addScore tid points room =
     (case map_of (teams room) tid of
        None \<Rightarrow> room
      | Some t \<Rightarrow> room\<lparr>teams := AList.update tid (t\<lparr>score := jsAdd (score t) points\<rparr>) (teams room)\<rparr>)"

text \<open>\<^verbatim>\<open>Set.prototype.add\<close>.\<close>

definition setAdd :: "'a \<Rightarrow> 'a list \<Rightarrow> 'a list" where
  "setAdd x xs = (if x \<in> set xs then xs else xs @ [x])"

section \<open>State and broadcast\<close>

definition publicState :: "room \<Rightarrow> int \<Rightarrow> publicState" where
  "publicState room now =
     \<lparr>pub_code = code room,
      pub_roomName = roomName room,
      pub_hostSocketId = hostSocketId room,
      pub_settings = settings room,
      pub_teams = map snd (teams room),
      pub_players = map snd (players room),
      pub_phase = phase room,
      pub_activeBonusTeamId = activeBonusTeamId room,
      pub_buzz = buzz room,
      pub_timer = computeTimerSnapshot room now,
      pub_tossupLockedTeams = tossupLockedTeams room,
      pub_match = match room\<rparr>"

definition broadcast :: "room \<Rightarrow> int \<Rightarrow> effect" where
  "broadcast room now = BroadcastState (code room) (publicState room now)"

definition requireRoom :: "roomCode \<Rightarrow> socketId \<Rightarrow> world \<Rightarrow> room option \<times> effect list" where
  "requireRoom c sid w =
     (case map_of (rooms w) c of
        None \<Rightarrow> (None, [EmitErrorMsg sid ''Room not found.''])
      | Some room \<Rightarrow> (Some room, []))"

definition requireHost :: "room \<Rightarrow> socketId \<Rightarrow> bool \<times> effect list" where
  "requireHost room sid =
     (if hostSocketId room \<noteq> sid then (False, [EmitErrorMsg sid ''Host only.''])
      else (True, []))"

section \<open>Socket handlers\<close>

text \<open>
  A handler runs to its end (\<open>Done\<close>), leaves through one of its guards (\<open>Dropped\<close>) or
  throws (\<open>Threw\<close>). In each case it yields the state as it then is and what it has sent
  so far. The handlers of a room work on the room object and the timer queue; \<open>withRoom\<close>
  and \<open>withHostRoom\<close> are the opening lines they share (the room is looked up under the
  normalised code, the caller is checked against the host), and put the mutated room object
  back under its key.
\<close>

datatype outcome = Done | Dropped | Threw

type_synonym roomResult = "outcome \<times> (room \<times> scheduler) \<times> effect list"

definition isBonusPhase :: "phase \<Rightarrow> bool" where
  "isBonusPhase ph = (ph = bonus_reading \<or> ph = bonus_live)"

definition withRoom ::
  "string \<Rightarrow> socketId \<Rightarrow> world \<Rightarrow> (roomCode \<Rightarrow> room \<times> scheduler \<Rightarrow> roomResult)
     \<Rightarrow> outcome \<times> world \<times> effect list" where
  "withRoom c sid w body =
     (case requireRoom c sid w of
        (None, es) \<Rightarrow> (Dropped, w, es)
      | (Some room, es) \<Rightarrow>
          (case body c (room, sched w) of
             (out, (room', s'), es') \<Rightarrow>
               (out, w\<lparr>rooms := AList.update c room' (rooms w), sched := s'\<rparr>, es @ es')))"

definition withHostRoom ::
  "string \<Rightarrow> socketId \<Rightarrow> world \<Rightarrow> (room \<times> scheduler \<Rightarrow> roomResult)
     \<Rightarrow> outcome \<times> world \<times> effect list" where
  "withHostRoom c sid w body =
     withRoom c sid w
       (\<lambda>c' rs. case requireHost (fst rs) sid of
                  (False, es) \<Rightarrow> (Dropped, rs, es)
                | (True, es) \<Rightarrow> (case body rs of (out, rs', es') \<Rightarrow> (out, rs', es @ es')))"

definition teamsLoop :: "(nat \<Rightarrow> teamId) \<Rightarrow> nat \<Rightarrow> (teamId \<times> team) list" where
  "teamsLoop ids teamCount =
     foldl (\<lambda>ts i. AList.update (ids i)
                      \<lparr>team_id = ids i, team_name = ''Team '' @ [char_of (65 + i)], score = 0\<rparr> ts)
           [] [0..<teamCount]"

text \<open>
  \<^verbatim>\<open>create_room\<close>. \<open>hostName\<close> is absent or the trimmed string
  \<^verbatim>\<open>hostName.trim()\<close>, \<open>roomName'\<close> is \<^verbatim>\<open>String(roomName || "").trim()\<close>,
  \<open>numTeams\<close> is \<^verbatim>\<open>Number(numTeams)\<close>; \<open>rnd\<close> are the draws of \<^verbatim>\<open>genCode\<close> and
  \<open>ids i\<close> is what the \<open>i\<close>-th call of \<^verbatim>\<open>nanoid(6)\<close> returns.
\<close>

definition on_create_room ::
  "socketId \<Rightarrow> string option \<Rightarrow> string \<Rightarrow> jsNumber \<Rightarrow> (nat \<Rightarrow> nat) \<Rightarrow> (nat \<Rightarrow> teamId) \<Rightarrow> int
     \<Rightarrow> world \<Rightarrow> outcome \<times> world \<times> effect list" where
  "on_create_room sid hostName roomName' numTeams rnd ids now w =
     (let c = genCode rnd;
          rn = (let t = take 40 roomName' in if t = [] then ''Room '' @ c else t);
          teamCount = (case numTeams of
                         Finite n \<Rightarrow> min 8 (max 2 (mathRound n))
                       | NotFinite \<Rightarrow> 2);
          hn = take 24 (case hostName of
                          None \<Rightarrow> ''Host''
                        | Some h \<Rightarrow> if h = [] then ''Host'' else h);
          room = \<lparr>code = c, roomName = rn, hostSocketId = sid,
                  settings = \<lparr>tossupSeconds = 5, bonusSeconds = 20\<rparr>,
                  teams = teamsLoop ids (nat teamCount),
                  players = AList.update sid
                     \<lparr>socketId = sid, name = hn, teamId = None, isHost = True, isSpectator = False\<rparr> [],
                  phase = lobby, activeBonusTeamId = None, tossupLockedTeams = [],
                  buzz = Unlocked,
                  timer = \<lparr>mode = tossup, running = False, remainingMs = 5 * 1000, endsAtMs = 0\<rparr>,
                  tossupEndTimeout = None,
                  match = \<lparr>tossupNumber = 0, rows = []\<rparr>\<rparr>
      in (Done, w\<lparr>rooms := AList.update c room (rooms w)\<rparr>,
          [SocketJoin sid c, EmitRoomCreated sid c, broadcast room now]))"

text \<open>
  \<^verbatim>\<open>host_set_room_name\<close> and \<^verbatim>\<open>host_set_team_name\<close>: \<open>roomName'\<close> is
  \<^verbatim>\<open>String(roomName || "").trim()\<close> and \<open>name'\<close> is \<^verbatim>\<open>String(name || "").trim()\<close>.
\<close>

definition on_host_set_room_name :: "string \<Rightarrow> int \<Rightarrow> room \<times> scheduler \<Rightarrow> roomResult" where
  "on_host_set_room_name roomName' now rs =
     (let rn = take 40 roomName' in
      if rn = [] then (Dropped, rs, [])
      else let room = (fst rs)\<lparr>roomName := rn\<rparr>
           in (Done, (room, snd rs), [broadcast room now]))"

definition on_host_set_team_name ::
  "teamId option \<Rightarrow> string \<Rightarrow> int \<Rightarrow> room \<times> scheduler \<Rightarrow> roomResult" where
  "on_host_set_team_name tid name' now rs =
     (case (case tid of None \<Rightarrow> None | Some i \<Rightarrow> map_of (teams (fst rs)) i) of
        None \<Rightarrow> (Dropped, rs, [])
      | Some t \<Rightarrow>
          (let nm = take 24 name' in
           if nm = [] then (Dropped, rs, [])
           else let room = (fst rs)\<lparr>teams := AList.update (the tid) (t\<lparr>team_name := nm\<rparr>)
                                                (teams (fst rs))\<rparr>
                in (Done, (room, snd rs), [broadcast room now])))"

text \<open>
  \<^verbatim>\<open>join_room\<close>. \<open>name'\<close> is \<^verbatim>\<open>String(name || "Player").trim()\<close>, \<open>tid\<close> is the
  \<^verbatim>\<open>teamId\<close> field when it is a string (no other value is a key of the team map) and
  \<open>spectate\<close> is the truth value of the \<^verbatim>\<open>spectate\<close> field.
\<close>

definition on_join_room ::
  "socketId \<Rightarrow> string \<Rightarrow> teamId option \<Rightarrow> bool \<Rightarrow> int \<Rightarrow> roomCode \<Rightarrow> room \<times> scheduler
     \<Rightarrow> roomResult" where
  "on_join_room sid name' tid spectate now c rs =
     (let nm = take 24 (if name' = [] then ''Player'' else name') in
      if spectate
      then let room = (fst rs)\<lparr>players := AList.update sid
                        \<lparr>socketId = sid, name = nm, teamId = None, isHost = False,
                         isSpectator = True\<rparr> (players (fst rs))\<rparr>
           in (Done, (room, snd rs), [SocketJoin sid c, broadcast room now])
      else if (case tid of None \<Rightarrow> True | Some i \<Rightarrow> i = [] \<or> map_of (teams (fst rs)) i = None)
      then (Dropped, rs, [SocketJoin sid c, EmitErrorMsg sid ''Choose a team before joining.''])
      else let room = (fst rs)\<lparr>players := AList.update sid
                        \<lparr>socketId = sid, name = nm, teamId = tid, isHost = False,
                         isSpectator = False\<rparr> (players (fst rs))\<rparr>
           in (Done, (room, snd rs), [SocketJoin sid c, broadcast room now]))"

definition on_host_start_tossup_reading :: "int \<Rightarrow> room \<times> scheduler \<Rightarrow> roomResult" where
  "on_host_start_tossup_reading now rs =
     (if isBonusPhase (phase (fst rs)) then (Dropped, rs, [])
      else
        let (room, s) = clearTossupEndTimeout rs;
            room = room\<lparr>phase := tossup_reading, activeBonusTeamId := None, tossupLockedTeams := []\<rparr>;
            room = clearBuzz room;
            room = resetTimerFull tossup False now room;
            room = startNewTossupRow room;
            room = refreshRowScores room
        in (Done, (room, s), [broadcast room now]))"

definition on_host_done_reading_tossup :: "int \<Rightarrow> room \<times> scheduler \<Rightarrow> roomResult" where
  "on_host_done_reading_tossup now rs =
     (if isBonusPhase (phase (fst rs)) then (Dropped, rs, [])
      else
        let room = (fst rs)\<lparr>phase := tossup_live\<rparr>;
            room = clearBuzz room;
            room = resetTimerFull tossup True now room;
            (room, s) = scheduleTossupEnd now (room, snd rs)
        in (Done, (room, s), [broadcast room now]))"

definition on_buzz :: "socketId \<Rightarrow> int \<Rightarrow> room \<times> scheduler \<Rightarrow> roomResult" where
  "on_buzz sid now rs =
     (case map_of (players (fst rs)) sid of
        None \<Rightarrow> (Dropped, rs, [])
      | Some pl \<Rightarrow>
          if isHost pl \<or> isSpectator pl then (Dropped, rs, [])
          else if phase (fst rs) \<noteq> tossup_reading \<and> phase (fst rs) \<noteq> tossup_live
          then (Dropped, rs, [])
          else (case teamId pl of
                  None \<Rightarrow> (Dropped, rs, [])
                | Some tid \<Rightarrow>
                    if tid = [] then (Dropped, rs, [])
                    else if tid \<in> set (tossupLockedTeams (fst rs)) then (Dropped, rs, [])
                    else if buzz (fst rs) \<noteq> Unlocked then (Dropped, rs, [])
                    else
                      let (room, s) = (if phase (fst rs) = tossup_live
                                       then clearTossupEndTimeout (stopTimer now (fst rs), snd rs)
                                       else rs);
                          room = room\<lparr>buzz := Locked sid (name pl) tid now None\<rparr>
                      in (Done, (room, s), [broadcast room now])))"

definition on_host_clear_buzz :: "int \<Rightarrow> room \<times> scheduler \<Rightarrow> roomResult" where
  "on_host_clear_buzz now rs =
     (let room = clearBuzz (fst rs);
          (room, s) = (if phase room = tossup_live \<and> running (timer room)
                       then scheduleTossupEnd now (room, snd rs)
                       else (room, snd rs))
      in (Done, (room, s), [broadcast room now]))"

definition on_host_set_interrupt_choice :: "bool \<Rightarrow> int \<Rightarrow> room \<times> scheduler \<Rightarrow> roomResult" where
  "on_host_set_interrupt_choice interrupt now rs =
     (case buzz (fst rs) of
        Unlocked \<Rightarrow> (Dropped, rs, [])
      | Locked wsid wname wtid wat _ \<Rightarrow>
          let room = (fst rs)\<lparr>buzz := Locked wsid wname wtid wat (Some interrupt)\<rparr>
          in (Done, (room, snd rs), [broadcast room now]))"

definition on_host_mark_answer :: "bool \<Rightarrow> int \<Rightarrow> room \<times> scheduler \<Rightarrow> roomResult" where
  "on_host_mark_answer correct now rs =
     (case buzz (fst rs) of
        Unlocked \<Rightarrow> (Dropped, rs, [])
      | Locked wsid wname tid wat interrupt' \<Rightarrow>
          (case (if tid \<noteq> [] then map_of (teams (fst rs)) tid else None) of
             None \<Rightarrow> (Dropped, rs, [])
           | Some team \<Rightarrow>
               (case interrupt' of
                  None \<Rightarrow> (Dropped, rs, [])
                | Some interrupt \<Rightarrow>
                    if correct then
                      let room = addScore tid 4 (fst rs);
                          room = addRowDelta tid Field_tu 4 room;
                          room = refreshRowScores room;
                          (room, s) = clearTossupEndTimeout (room, snd rs);
                          room = room\<lparr>phase := bonus_reading, activeBonusTeamId := Some tid\<rparr>;
                          room = clearBuzz room;
                          room = resetTimerFull bonus False now room
                      in (Done, (room, s), [broadcast room now])
                    else
                      let room = (fst rs)\<lparr>tossupLockedTeams := setAdd tid (tossupLockedTeams (fst rs))\<rparr>;
                          room = clearBuzz room
                      in if interrupt then
                           let room = (case otherTeamId room tid of
                                         None \<Rightarrow> room
                                       | Some otherId \<Rightarrow>
                                           (case map_of (teams room) otherId of
                                              None \<Rightarrow> room
                                            | Some other \<Rightarrow>
                                                refreshRowScores
                                                  (addRowDelta otherId Field_p 4 (addScore otherId 4 room))));
                               (room, s) = clearTossupEndTimeout (room, snd rs);
                               room = room\<lparr>phase := tossup_reading\<rparr>;
                               room = resetTimerFull tossup False now room
                           in (Done, (room, s), [broadcast room now])
                         else
                           let room = room\<lparr>phase := tossup_live\<rparr>;
                               room = resetTimerFull tossup True now room;
                               (room, s) = scheduleTossupEnd now (room, snd rs)
                           in (Done, (room, s), [broadcast room now]))))"

definition on_host_done_reading_bonus :: "int \<Rightarrow> room \<times> scheduler \<Rightarrow> roomResult" where
  "on_host_done_reading_bonus now rs =
     (if phase (fst rs) \<noteq> bonus_reading \<and> phase (fst rs) \<noteq> bonus_live then (Dropped, rs, [])
      else
        let room = (fst rs)\<lparr>phase := bonus_live\<rparr>;
            room = resetTimerFull bonus True now room
        in (Done, (room, snd rs), [broadcast room now]))"

definition endBonus :: "int \<Rightarrow> room \<Rightarrow> room" where
  "endBonus now room =
     resetTimerFull tossup False now
       (clearBuzz (room\<lparr>phase := lobby, activeBonusTeamId := None, tossupLockedTeams := []\<rparr>))"

definition on_host_award_bonus :: "jsNumber \<Rightarrow> int \<Rightarrow> room \<times> scheduler \<Rightarrow> roomResult" where
  "on_host_award_bonus points now rs =
     (if \<not> isBonusPhase (phase (fst rs)) then (Dropped, rs, [])
      else
        (case (case activeBonusTeamId (fst rs) of
                 None \<Rightarrow> None
               | Some tid \<Rightarrow> if tid = [] then None
                             else map_option (\<lambda>t. tid) (map_of (teams (fst rs)) tid)) of
           None \<Rightarrow> (Dropped, rs, [])
         | Some tid \<Rightarrow>
             (case points of
                NotFinite \<Rightarrow> (Dropped, rs, [])
              | Finite pts \<Rightarrow>
                  if pts < 0 \<or> pts > 20 then (Dropped, rs, [])
                  else
                    let room = addScore tid pts (fst rs);
                        room = addRowDelta tid Field_b pts room;
                        room = refreshRowScores room;
                        room = endBonus now room
                    in (Done, (room, snd rs), [broadcast room now]))))"

definition on_host_skip_bonus :: "int \<Rightarrow> room \<times> scheduler \<Rightarrow> roomResult" where
  "on_host_skip_bonus now rs =
     (if \<not> isBonusPhase (phase (fst rs)) then (Dropped, rs, [])
      else let room = endBonus now (fst rs)
           in (Done, (room, snd rs), [broadcast room now]))"

text \<open>
  \<^verbatim>\<open>disconnect\<close>: the loop over \<^verbatim>\<open>rooms.values()\<close>. The host's leaving deletes the
  room; the entries still to be visited are not touched by that.
\<close>

fun disconnectLoop ::
  "socketId \<Rightarrow> int \<Rightarrow> (roomCode \<times> room) list \<Rightarrow> world \<Rightarrow> world \<times> effect list" where
  "disconnectLoop sid now [] w = (w, [])"
| "disconnectLoop sid now (e # rest) w =
     (let room = snd e in
      if map_of (players room) sid = None then disconnectLoop sid now rest w
      else
        let wasHost = (hostSocketId room = sid);
            room = room\<lparr>players := AList.delete sid (players room)\<rparr>
        in if wasHost then
             let (room', s') = clearTossupEndTimeout (room, sched w);
                 (w', es) = disconnectLoop sid now rest
                              (w\<lparr>rooms := AList.delete (code room') (rooms w), sched := s'\<rparr>)
             in (w', BroadcastErrorMsg (code room) ''Host disconnected. Room closed.'' # es)
           else
             let (w', es) = disconnectLoop sid now rest
                              (w\<lparr>rooms := AList.update (fst e) room (rooms w)\<rparr>)
             in (w', broadcast room now # es))"

definition on_disconnect :: "socketId \<Rightarrow> int \<Rightarrow> world \<Rightarrow> outcome \<times> world \<times> effect list" where
  "on_disconnect sid now w =
     (case disconnectLoop sid now (rooms w) w of (w', es) \<Rightarrow> (Done, w', es))"

section \<open>The timeout callback\<close>

text \<open>
  The function that \<^verbatim>\<open>scheduleTossupEnd\<close> hands to \<^verbatim>\<open>setTimeout\<close>, run for the
  room code it captured.
\<close>

definition tossupEndCallback :: "roomCode \<Rightarrow> int \<Rightarrow> world \<Rightarrow> world \<times> effect list" where
  "tossupEndCallback c now w =
     (case map_of (rooms w) c of
        None \<Rightarrow> (w, [])
      | Some r \<Rightarrow>
          let remaining = max 0 (endsAtMs (timer r) - now) in
          if phase r = tossup_live \<and> remaining = 0 \<and> buzz r = Unlocked
          then
            let r = r\<lparr>phase := tossup_closed\<rparr>;
                r = r\<lparr>timer := (timer r)\<lparr>running := False, remainingMs := 0, endsAtMs := 0\<rparr>\<rparr>;
                r = clearBuzz r
            in (w\<lparr>rooms := AList.update c r (rooms w)\<rparr>, [broadcast r now])
          else (w, []))"

text \<open>
  The runtime runs a pending timeout once, not before it is due, and forgets its handle.
\<close>

definition fireTimeout :: "nat \<Rightarrow> int \<Rightarrow> world \<Rightarrow> world \<times> effect list" where
  "fireTimeout h now w =
     (case map_of (pending (sched w)) h of
        None \<Rightarrow> (w, [])
      | Some (c, due) \<Rightarrow>
          if now < due then (w, [])
          else tossupEndCallback c now
                 (w\<lparr>sched := (sched w)\<lparr>pending := AList.delete h (pending (sched w))\<rparr>\<rparr>))"

section \<open>Commands and runs\<close>

text \<open>
  A command is a message of one of the fifteen events with the fields its handler reads.
  \<open>NoPayload\<close> is a message that comes without a payload object, for any event whose
  handler takes its argument apart (all but \<^verbatim>\<open>set_team\<close> and \<^verbatim>\<open>disconnect\<close>):
  the handler throws a TypeError before its first statement. What the runtime then does
  with the exception is not part of the model.
\<close>

datatype command =
  CreateRoom "string option" string jsNumber "nat \<Rightarrow> nat" "nat \<Rightarrow> teamId"
  | HostSetRoomName string string
  | HostSetTeamName string "teamId option" string
  | JoinRoom string string "teamId option" bool
  | SetTeam
  | HostStartTossupReading string
  | HostDoneReadingTossup string
  | Buzz string
  | HostClearBuzz string
  | HostSetInterruptChoice string bool
  | HostMarkAnswer string bool
  | HostDoneReadingBonus string
  | HostAwardBonus string jsNumber
  | HostSkipBonus string
  | Disconnect
  | NoPayload

fun handle :: "int \<Rightarrow> socketId \<Rightarrow> command \<Rightarrow> world \<Rightarrow> outcome \<times> world \<times> effect list" where
  "handle now sid (CreateRoom hostName rn n rnd ids) w = on_create_room sid hostName rn n rnd ids now w"
| "handle now sid (HostSetRoomName c rn) w = withHostRoom c sid w (on_host_set_room_name rn now)"
| "handle now sid (HostSetTeamName c tid nm) w = withHostRoom c sid w (on_host_set_team_name tid nm now)"
| "handle now sid (JoinRoom c nm tid spectate) w = withRoom c sid w (on_join_room sid nm tid spectate now)"
| "handle now sid SetTeam w = (Done, w, [])"
| "handle now sid (HostStartTossupReading c) w = withHostRoom c sid w (on_host_start_tossup_reading now)"
| "handle now sid (HostDoneReadingTossup c) w = withHostRoom c sid w (on_host_done_reading_tossup now)"
| "handle now sid (Buzz c) w = withRoom c sid w (\<lambda>c'. on_buzz sid now)"
| "handle now sid (HostClearBuzz c) w = withHostRoom c sid w (on_host_clear_buzz now)"
| "handle now sid (HostSetInterruptChoice c i) w = withHostRoom c sid w (on_host_set_interrupt_choice i now)"
| "handle now sid (HostMarkAnswer c correct) w = withHostRoom c sid w (on_host_mark_answer correct now)"
| "handle now sid (HostDoneReadingBonus c) w = withHostRoom c sid w (on_host_done_reading_bonus now)"
| "handle now sid (HostAwardBonus c pts) w = withHostRoom c sid w (on_host_award_bonus pts now)"
| "handle now sid (HostSkipBonus c) w = withHostRoom c sid w (on_host_skip_bonus now)"
| "handle now sid Disconnect w = on_disconnect sid now w"
| "handle now sid NoPayload w = (Threw, w, [])"

text \<open>
  What the event loop delivers, one at a time: a command from a connection, or a timeout.
\<close>

datatype event = Command int socketId command | Timeout int nat

fun step :: "event \<Rightarrow> world \<Rightarrow> world \<times> effect list" where
  "step (Command now sid cmd) w = snd (handle now sid cmd w)"
| "step (Timeout now h) w = fireTimeout h now w"

definition run :: "event list \<Rightarrow> world \<Rightarrow> world" where
  "run evs w = foldl (\<lambda>w e. fst (step e w)) w evs"

definition init_world :: world where
  "init_world = \<lparr>rooms = [], sched = \<lparr>pending = [], nextTimeoutId = 0\<rparr>\<rparr>"

section \<open>Reachable states\<close>

text \<open>
  The facts below hold of every room the server can get into. They speak of the keys of the
  team map, of the holder of the buzz (a team of the room that is not locked out), of the
  ledger rows (each row has a cell for every team), of the clock, and of the registry (each
  room is stored under its own code).
\<close>

definition teamIds :: "room \<Rightarrow> teamId list" where
  "teamIds r = map fst (teams r)"

definition ledger_ok :: "room \<Rightarrow> bool" where
  "ledger_ok r \<longleftrightarrow> (\<forall>row \<in> set (rows (match r)). map fst (row_teams row) = teamIds r)"

definition room_wf :: "room \<Rightarrow> bool" where
  "room_wf r \<longleftrightarrow>
     0 \<le> remainingMs (timer r) \<and>
     0 \<le> tossupSeconds (settings r) \<and> 0 \<le> bonusSeconds (settings r) \<and>
     2 \<le> length (teamIds r) \<and> distinct (teamIds r) \<and> [] \<notin> set (teamIds r) \<and>
     (\<forall>e \<in> set (players r). \<forall>t. teamId (snd e) = Some t \<longrightarrow> t \<noteq> [] \<longrightarrow> t \<in> set (teamIds r)) \<and>
     (buzz r \<noteq> Unlocked \<longrightarrow> winnerTeamId (buzz r) \<noteq> [] \<and> winnerTeamId (buzz r) \<in> set (teamIds r)
        \<and> winnerTeamId (buzz r) \<notin> set (tossupLockedTeams r)) \<and>
     ledger_ok r"

text \<open>
  The clock and the buzz: while the host reads, the timer does not run, and a locked buzz is
  found only in a toss-up phase with the timer stopped (a buzz in the live toss-up stops it).
\<close>

definition clock_ok :: "room \<Rightarrow> bool" where
  "clock_ok r \<longleftrightarrow>
     (phase r = tossup_reading \<longrightarrow> \<not> running (timer r)) \<and>
     (buzz r \<noteq> Unlocked \<longrightarrow>
        \<not> running (timer r) \<and> (phase r = tossup_reading \<or> phase r = tossup_live))"

definition room_ok :: "room \<Rightarrow> bool" where
  "room_ok r \<longleftrightarrow> room_wf r \<and> clock_ok r"

definition world_ok :: "world \<Rightarrow> bool" where
  "world_ok w \<longleftrightarrow>
     distinct (map fst (rooms w)) \<and> (\<forall>e \<in> set (rooms w). code (snd e) = fst e \<and> room_ok (snd e))"

text \<open>A handler keeps a room well-formed and leaves its code alone.\<close>

definition keeps_wf :: "room \<Rightarrow> room \<Rightarrow> bool" where
  "keeps_wf r r' \<longleftrightarrow> (room_wf r \<longrightarrow> room_wf r') \<and> code r' = code r"

definition keeps :: "room \<Rightarrow> room \<Rightarrow> bool" where
  "keeps r r' \<longleftrightarrow> (room_ok r \<longrightarrow> room_ok r') \<and> code r' = code r"

text \<open>
  The one thing assumed of the environment: the ids that \<^verbatim>\<open>nanoid(6)\<close> returns while
  a room is created (at most eight) are non-empty and differ from each other.
\<close>

fun env_ok :: "event \<Rightarrow> bool" where
  "env_ok (Command now sid (CreateRoom hn rn n rnd ids)) =
     (distinct (map ids [0..<8]) \<and> list_all (\<lambda>i. ids i \<noteq> []) [0..<8])"
| "env_ok _ = True"

section \<open>Sample runs\<close>

text \<open>
  Concrete inputs on which the theorems below are instantiated: a host creates a room of two
  teams (all six draws of the code generator give 0, so the code is AAAAAA), a player joins
  each team, and the host finishes reading a toss-up at time 1000.
\<close>

definition ids0 :: "nat \<Rightarrow> teamId" where
  "ids0 i = ''team'' @ [char_of (48 + i)]"

definition rnd0 :: "nat \<Rightarrow> nat" where
  "rnd0 i = 0"

definition trace_live :: "event list" where
  "trace_live =
     [Command 0 ''h'' (CreateRoom (Some ''Ann'') ''Finals'' (Finite 2) rnd0 ids0),
      Command 10 ''a'' (JoinRoom ''AAAAAA'' ''Al'' (Some ''team0'') False),
      Command 20 ''b'' (JoinRoom ''AAAAAA'' ''Bo'' (Some ''team1'') False),
      Command 1000 ''h'' (HostDoneReadingTossup ''AAAAAA'')]"

text \<open>The world after that run.\<close>

definition world_live :: world where
  "world_live = run trace_live init_world"

text \<open>A world in which a player has buzzed while the host was still reading.\<close>

definition world_buzzed_reading :: world where
  "world_buzzed_reading =
     run [Command 0 ''h'' (CreateRoom (Some ''Ann'') ''Finals'' (Finite 2) rnd0 ids0),
          Command 10 ''a'' (JoinRoom ''AAAAAA'' ''Al'' (Some ''team0'') False),
          Command 500 ''h'' (HostStartTossupReading ''AAAAAA''),
          Command 700 ''a'' (Buzz ''AAAAAA'')] init_world"

text \<open>A world with one room, and draws of the code generator that give another code.\<close>

definition world_one_room :: world where
  "world_one_room =
     run [Command 0 ''h'' (CreateRoom (Some ''Ann'') ''Finals'' (Finite 2) rnd0 ids0)] init_world"

definition rnd1 :: "nat \<Rightarrow> nat" where
  "rnd1 i = 1"

text \<open>The sample room after a player has joined the first team, and the second join.\<close>

definition world_joined :: world where
  "world_joined =
     run [Command 0 ''h'' (CreateRoom (Some ''Ann'') ''Finals'' (Finite 2) rnd0 ids0),
          Command 10 ''a'' (JoinRoom ''AAAAAA'' ''Al'' (Some ''team0'') False)] init_world"

text \<open>
  The room code a command is addressed to, and whether its handler calls
  \<^verbatim>\<open>requireHost\<close>.
\<close>

fun targetCode :: "command \<Rightarrow> string option" where
  "targetCode (CreateRoom hn rn n rnd ids) = None"
| "targetCode (HostSetRoomName c rn) = Some c"
| "targetCode (HostSetTeamName c tid nm) = Some c"
| "targetCode (JoinRoom c nm tid spectate) = Some c"
| "targetCode SetTeam = None"
| "targetCode (HostStartTossupReading c) = Some c"
| "targetCode (HostDoneReadingTossup c) = Some c"
| "targetCode (Buzz c) = Some c"
| "targetCode (HostClearBuzz c) = Some c"
| "targetCode (HostSetInterruptChoice c i) = Some c"
| "targetCode (HostMarkAnswer c correct) = Some c"
| "targetCode (HostDoneReadingBonus c) = Some c"
| "targetCode (HostAwardBonus c pts) = Some c"
| "targetCode (HostSkipBonus c) = Some c"
| "targetCode Disconnect = None"
| "targetCode NoPayload = None"

fun hostOnly :: "command \<Rightarrow> bool" where
  "hostOnly (CreateRoom hn rn n rnd ids) = False"
| "hostOnly (JoinRoom c nm tid spectate) = False"
| "hostOnly SetTeam = False"
| "hostOnly (Buzz c) = False"
| "hostOnly Disconnect = False"
| "hostOnly NoPayload = False"
| "hostOnly _ = True"

text \<open>The sample room after the first player has buzzed in the live toss-up.\<close>

definition world_buzzed_live :: world where
  "world_buzzed_live = run (trace_live @ [Command 3000 ''a'' (Buzz ''AAAAAA'')]) init_world"

text \<open>
  What a claim about scoring observes of a room: the running score of a team, and the cell
  of a team in the current ledger row.
\<close>

definition scoreOf :: "room \<Rightarrow> teamId \<Rightarrow> rat option" where
  "scoreOf r x = map_option score (map_of (teams r) x)"

definition cellOf :: "room \<Rightarrow> teamId \<Rightarrow> cell option" where
  "cellOf r x = (case currentRow r of None \<Rightarrow> None | Some cur \<Rightarrow> map_of (row_teams cur) x)"

text \<open>
  The sample room with a buzz of the first player in the live toss-up, classified by the
  host as no interrupt and as an interrupt; the host went from the lobby to the live toss-up,
  so that the ledger has no row. In the last two worlds the host started the toss-up first.
\<close>

definition world_classified_no :: world where
  "world_classified_no =
     run (trace_live @ [Command 3000 ''a'' (Buzz ''AAAAAA''),
                        Command 3500 ''h'' (HostSetInterruptChoice ''AAAAAA'' False)]) init_world"

definition world_classified_yes :: world where
  "world_classified_yes =
     run (trace_live @ [Command 3000 ''a'' (Buzz ''AAAAAA''),
                        Command 3500 ''h'' (HostSetInterruptChoice ''AAAAAA'' True)]) init_world"

definition trace_row :: "event list" where
  "trace_row =
     [Command 0 ''h'' (CreateRoom (Some ''Ann'') ''Finals'' (Finite 2) rnd0 ids0),
      Command 10 ''a'' (JoinRoom ''AAAAAA'' ''Al'' (Some ''team0'') False),
      Command 20 ''b'' (JoinRoom ''AAAAAA'' ''Bo'' (Some ''team1'') False),
      Command 500 ''h'' (HostStartTossupReading ''AAAAAA''),
      Command 1000 ''h'' (HostDoneReadingTossup ''AAAAAA''),
      Command 3000 ''a'' (Buzz ''AAAAAA'')]"

definition trace_row_no :: "event list" where
  "trace_row_no = trace_row @ [Command 3500 ''h'' (HostSetInterruptChoice ''AAAAAA'' False)]"

definition trace_row_yes :: "event list" where
  "trace_row_yes = trace_row @ [Command 3500 ''h'' (HostSetInterruptChoice ''AAAAAA'' True)]"

text \<open>
  A run in which a team gets a score that is no integer: the player of connection \<open>s\<close> answers
  the first toss-up, the host awards 2.3 points for the bonus (the double next to 2.3), and
  in the second toss-up the first player buzzes.
\<close>

definition trace_fraction :: "socketId \<Rightarrow> event list" where
  "trace_fraction s =
     [Command 0 ''h'' (CreateRoom (Some ''Ann'') ''Finals'' (Finite 2) rnd0 ids0),
      Command 10 ''a'' (JoinRoom ''AAAAAA'' ''Al'' (Some ''team0'') False),
      Command 20 ''b'' (JoinRoom ''AAAAAA'' ''Bo'' (Some ''team1'') False),
      Command 500 ''h'' (HostStartTossupReading ''AAAAAA''),
      Command 1000 ''h'' (HostDoneReadingTossup ''AAAAAA''),
      Command 3000 s (Buzz ''AAAAAA''),
      Command 3500 ''h'' (HostSetInterruptChoice ''AAAAAA'' False),
      Command 4000 ''h'' (HostMarkAnswer ''AAAAAA'' True),
      Command 5000 ''h'' (HostAwardBonus ''AAAAAA''
                            (Finite (2589569785738035 / 1125899906842624))),
      Command 6000 ''h'' (HostStartTossupReading ''AAAAAA''),
      Command 7000 ''h'' (HostDoneReadingTossup ''AAAAAA''),
      Command 8000 ''a'' (Buzz ''AAAAAA'')]"

definition world_fraction_no :: world where
  "world_fraction_no =
     run (trace_fraction ''a'' @
          [Command 8500 ''h'' (HostSetInterruptChoice ''AAAAAA'' False)]) init_world"

definition world_fraction_yes :: world where
  "world_fraction_yes =
     run (trace_fraction ''b'' @
          [Command 8500 ''h'' (HostSetInterruptChoice ''AAAAAA'' True)]) init_world"

text \<open>
  A team holds the lock when the buzz is locked to one of its players. The events that put an
  end to a lockout in the room stored under \<open>c\<close>, whose host is \<open>h\<close>: the commands that
  assign a new empty set to \<^verbatim>\<open>tossupLockedTeams\<close> (start-tossup-reading, award-bonus and
  skip-bonus for that room), and the two that take the room itself away (the host's
  disconnect, and a create-room that draws the same code).
\<close>

definition holdsLock :: "room \<Rightarrow> teamId \<Rightarrow> bool" where
  "holdsLock r t \<longleftrightarrow> buzz r \<noteq> Unlocked \<and> winnerTeamId (buzz r) = t"

fun endsLockout :: "roomCode \<Rightarrow> socketId \<Rightarrow> event \<Rightarrow> bool" where
  "endsLockout c h (Command now sid (HostStartTossupReading cc)) = (cc = c)"
| "endsLockout c h (Command now sid (HostAwardBonus cc pts)) = (cc = c)"
| "endsLockout c h (Command now sid (HostSkipBonus cc)) = (cc = c)"
| "endsLockout c h (Command now sid (CreateRoom hn rn n rnd ids)) = (genCode rnd = c)"
| "endsLockout c h (Command now sid Disconnect) = (sid = h)"
| "endsLockout c h _ = False"

text \<open>A handler that keeps the host of a room and takes no team out of the lockout set.\<close>

definition grows :: "room \<Rightarrow> room \<Rightarrow> bool" where
  "grows r r' \<longleftrightarrow>
     set (tossupLockedTeams r) \<subseteq> set (tossupLockedTeams r') \<and> hostSocketId r' = hostSocketId r"

text \<open>
  Two more runs of the sample room, both with a ledger row. In the first the first team has
  answered wrongly (no interrupt) and is locked out of the live toss-up. The second goes on:
  the second team buzzes and answers correctly, so that the room is in the bonus phase with
  the first team still in the lockout set.
\<close>

definition trace_locked_out :: "event list" where
  "trace_locked_out = trace_row_no @ [Command 4000 ''h'' (HostMarkAnswer ''AAAAAA'' False)]"

definition trace_bonus :: "event list" where
  "trace_bonus =
     trace_locked_out @
       [Command 4500 ''b'' (Buzz ''AAAAAA''),
        Command 4600 ''h'' (HostSetInterruptChoice ''AAAAAA'' False),
        Command 4700 ''h'' (HostMarkAnswer ''AAAAAA'' True)]"

section \<open>Invariant\<close>

lemma fst_clearTossupEndTimeout:
  "fst (clearTossupEndTimeout rs) = (fst rs)\<lparr>tossupEndTimeout := None\<rparr>"
  by (cases rs) (simp add: clearTossupEndTimeout_def split: option.splits)

lemma fst_scheduleTossupEnd:
  "fst (scheduleTossupEnd now rs) = (fst rs)\<lparr>tossupEndTimeout := Some (nextTimeoutId (snd rs))\<rparr>"
  by (cases rs) (simp add: scheduleTossupEnd_def clearTossupEndTimeout_def Let_def split: option.splits prod.splits)

lemma map_fst_update_present:
  "k \<in> set (map fst al) \<Longrightarrow> map fst (AList.update k v al) = map fst al"
  by (induction al) auto

lemma map_of_Some_key: "map_of al k = Some v \<Longrightarrow> k \<in> set (map fst al)"
  by (induction al) (auto split: if_splits)

lemma map_fst_update_Some:
  "map_of al k = Some v \<Longrightarrow> map fst (AList.update k v' al) = map fst al"
  by (rule map_fst_update_present) (rule map_of_Some_key)

lemma addScore_fields:
  "code (addScore tid pts r) = code r"
  "roomName (addScore tid pts r) = roomName r"
  "hostSocketId (addScore tid pts r) = hostSocketId r"
  "settings (addScore tid pts r) = settings r"
  "players (addScore tid pts r) = players r"
  "phase (addScore tid pts r) = phase r"
  "activeBonusTeamId (addScore tid pts r) = activeBonusTeamId r"
  "tossupLockedTeams (addScore tid pts r) = tossupLockedTeams r"
  "buzz (addScore tid pts r) = buzz r"
  "timer (addScore tid pts r) = timer r"
  "tossupEndTimeout (addScore tid pts r) = tossupEndTimeout r"
  "match (addScore tid pts r) = match r"
  by (simp_all add: addScore_def split: option.splits)

lemma teamIds_addScore: "teamIds (addScore tid pts r) = teamIds r"
  by (simp add: addScore_def teamIds_def map_fst_update_Some split: option.splits)

lemma addRowDelta_fields:
  "code (addRowDelta tid f pts r) = code r"
  "roomName (addRowDelta tid f pts r) = roomName r"
  "hostSocketId (addRowDelta tid f pts r) = hostSocketId r"
  "settings (addRowDelta tid f pts r) = settings r"
  "teams (addRowDelta tid f pts r) = teams r"
  "players (addRowDelta tid f pts r) = players r"
  "phase (addRowDelta tid f pts r) = phase r"
  "activeBonusTeamId (addRowDelta tid f pts r) = activeBonusTeamId r"
  "tossupLockedTeams (addRowDelta tid f pts r) = tossupLockedTeams r"
  "buzz (addRowDelta tid f pts r) = buzz r"
  "timer (addRowDelta tid f pts r) = timer r"
  "tossupEndTimeout (addRowDelta tid f pts r) = tossupEndTimeout r"
  by (simp_all add: addRowDelta_def setCurrentRow_def split: option.splits)

lemma refreshRowScores_fields:
  "code (refreshRowScores r) = code r"
  "roomName (refreshRowScores r) = roomName r"
  "hostSocketId (refreshRowScores r) = hostSocketId r"
  "settings (refreshRowScores r) = settings r"
  "teams (refreshRowScores r) = teams r"
  "players (refreshRowScores r) = players r"
  "phase (refreshRowScores r) = phase r"
  "activeBonusTeamId (refreshRowScores r) = activeBonusTeamId r"
  "tossupLockedTeams (refreshRowScores r) = tossupLockedTeams r"
  "buzz (refreshRowScores r) = buzz r"
  "timer (refreshRowScores r) = timer r"
  "tossupEndTimeout (refreshRowScores r) = tossupEndTimeout r"
  by (simp_all add: refreshRowScores_def setCurrentRow_def split: option.splits)

lemma startNewTossupRow_fields:
  "code (startNewTossupRow r) = code r"
  "roomName (startNewTossupRow r) = roomName r"
  "hostSocketId (startNewTossupRow r) = hostSocketId r"
  "settings (startNewTossupRow r) = settings r"
  "teams (startNewTossupRow r) = teams r"
  "players (startNewTossupRow r) = players r"
  "phase (startNewTossupRow r) = phase r"
  "activeBonusTeamId (startNewTossupRow r) = activeBonusTeamId r"
  "tossupLockedTeams (startNewTossupRow r) = tossupLockedTeams r"
  "buzz (startNewTossupRow r) = buzz r"
  "timer (startNewTossupRow r) = timer r"
  "tossupEndTimeout (startNewTossupRow r) = tossupEndTimeout r"
  by (simp_all add: startNewTossupRow_def Let_def)

lemma set_butlast_last: "xs \<noteq> [] \<Longrightarrow> set (butlast xs @ [y]) \<subseteq> insert y (set xs)"
  by (auto dest: in_set_butlastD)

lemma ledger_ok_setCurrentRow:
  "ledger_ok r \<Longrightarrow> map fst (row_teams y) = teamIds r \<Longrightarrow> ledger_ok (setCurrentRow y r)"
  by (auto simp: ledger_ok_def setCurrentRow_def teamIds_def dest: in_set_butlastD)

lemma currentRow_in: "currentRow r = Some y \<Longrightarrow> y \<in> set (rows (match r))"
  by (auto simp: currentRow_def split: if_splits)

lemma currentRow_keys: "ledger_ok r \<Longrightarrow> currentRow r = Some y \<Longrightarrow> map fst (row_teams y) = teamIds r"
  by (auto simp: ledger_ok_def dest: currentRow_in)

lemma ledger_ok_addRowDelta: "ledger_ok r \<Longrightarrow> ledger_ok (addRowDelta tid f pts r)"
  unfolding addRowDelta_def
  by (auto split: option.splits intro!: ledger_ok_setCurrentRow
      simp: map_fst_update_Some currentRow_keys)

lemma map_fst_refreshCell: "map fst (refreshCell cells e) = map fst cells"
  by (simp add: refreshCell_def map_fst_update_Some split: option.splits)

lemma map_fst_foldl_refreshCell: "map fst (foldl refreshCell cells ts) = map fst cells"
  by (induction ts arbitrary: cells) (simp_all add: map_fst_refreshCell)

lemma ledger_ok_refreshRowScores: "ledger_ok r \<Longrightarrow> ledger_ok (refreshRowScores r)"
  unfolding refreshRowScores_def
  by (auto split: option.splits intro!: ledger_ok_setCurrentRow
      simp: map_fst_foldl_refreshCell currentRow_keys)

lemma ledger_ok_startNewTossupRow: "ledger_ok r \<Longrightarrow> ledger_ok (startNewTossupRow r)"
  by (auto simp: ledger_ok_def startNewTossupRow_def Let_def teamIds_def split_beta)

lemma ledger_ok_addScore: "ledger_ok r \<Longrightarrow> ledger_ok (addScore tid pts r)"
  by (simp add: ledger_ok_def addScore_fields teamIds_addScore)

lemma teamIds_simps [simp]:
  "teamIds (r\<lparr>code := a\<rparr>) = teamIds r"
  "teamIds (r\<lparr>roomName := b\<rparr>) = teamIds r"
  "teamIds (r\<lparr>players := c\<rparr>) = teamIds r"
  "teamIds (r\<lparr>phase := d\<rparr>) = teamIds r"
  "teamIds (r\<lparr>activeBonusTeamId := e\<rparr>) = teamIds r"
  "teamIds (r\<lparr>tossupLockedTeams := f\<rparr>) = teamIds r"
  "teamIds (r\<lparr>buzz := g\<rparr>) = teamIds r"
  "teamIds (r\<lparr>timer := h\<rparr>) = teamIds r"
  "teamIds (r\<lparr>tossupEndTimeout := i\<rparr>) = teamIds r"
  "teamIds (r\<lparr>match := j\<rparr>) = teamIds r"
  by (simp_all add: teamIds_def)

lemma ledger_ok_simps [simp]:
  "ledger_ok (r\<lparr>code := a\<rparr>) = ledger_ok r"
  "ledger_ok (r\<lparr>roomName := b\<rparr>) = ledger_ok r"
  "ledger_ok (r\<lparr>players := c\<rparr>) = ledger_ok r"
  "ledger_ok (r\<lparr>phase := d\<rparr>) = ledger_ok r"
  "ledger_ok (r\<lparr>activeBonusTeamId := e\<rparr>) = ledger_ok r"
  "ledger_ok (r\<lparr>tossupLockedTeams := f\<rparr>) = ledger_ok r"
  "ledger_ok (r\<lparr>buzz := g\<rparr>) = ledger_ok r"
  "ledger_ok (r\<lparr>timer := h\<rparr>) = ledger_ok r"
  "ledger_ok (r\<lparr>tossupEndTimeout := i\<rparr>) = ledger_ok r"
  by (simp_all add: ledger_ok_def)

lemma room_wf_addScore: "room_wf r \<Longrightarrow> room_wf (addScore tid pts r)"
  by (simp add: room_wf_def addScore_fields teamIds_addScore ledger_ok_addScore)

lemma teamIds_ledger [simp]:
  "teamIds (addRowDelta tid f pts r) = teamIds r"
  "teamIds (refreshRowScores r) = teamIds r"
  "teamIds (startNewTossupRow r) = teamIds r"
  by (simp_all add: teamIds_def addRowDelta_fields refreshRowScores_fields startNewTossupRow_fields)

lemma room_wf_addRowDelta: "room_wf r \<Longrightarrow> room_wf (addRowDelta tid f pts r)"
  by (simp add: room_wf_def addRowDelta_fields ledger_ok_addRowDelta)

lemma room_wf_refreshRowScores: "room_wf r \<Longrightarrow> room_wf (refreshRowScores r)"
  by (simp add: room_wf_def refreshRowScores_fields ledger_ok_refreshRowScores)

lemma room_wf_startNewTossupRow: "room_wf r \<Longrightarrow> room_wf (startNewTossupRow r)"
  by (simp add: room_wf_def startNewTossupRow_fields ledger_ok_startNewTossupRow)

lemma room_wf_clearBuzz: "room_wf r \<Longrightarrow> room_wf (clearBuzz r)"
  by (simp add: room_wf_def clearBuzz_def)

lemma room_wf_resetTimerFull: "room_wf r \<Longrightarrow> room_wf (resetTimerFull m b now r)"
  by (simp add: room_wf_def resetTimerFull_def setTimer_def Let_def)

lemma room_wf_stopTimer: "room_wf r \<Longrightarrow> room_wf (stopTimer now r)"
  by (simp add: room_wf_def stopTimer_def)

lemma room_wf_simps [simp]:
  "room_wf (r\<lparr>roomName := b\<rparr>) = room_wf r"
  "room_wf (r\<lparr>phase := d\<rparr>) = room_wf r"
  "room_wf (r\<lparr>activeBonusTeamId := e\<rparr>) = room_wf r"
  "room_wf (r\<lparr>tossupEndTimeout := i\<rparr>) = room_wf r"
  by (simp_all add: room_wf_def)

lemma room_wf_unlock_all: "room_wf r \<Longrightarrow> room_wf (r\<lparr>tossupLockedTeams := []\<rparr>)"
  by (simp add: room_wf_def)

lemma room_wf_lock_clear: "room_wf r \<Longrightarrow> room_wf (clearBuzz (r\<lparr>tossupLockedTeams := l\<rparr>))"
  by (simp add: room_wf_def clearBuzz_def)

lemmas room_wf_intros = room_wf_addScore room_wf_addRowDelta room_wf_refreshRowScores
  room_wf_startNewTossupRow room_wf_clearBuzz room_wf_resetTimerFull room_wf_stopTimer
  room_wf_unlock_all room_wf_lock_clear

lemmas fst_sched = fst_clearTossupEndTimeout fst_scheduleTossupEnd

lemma code_prims [simp]:
  "code (clearBuzz r) = code r"
  "code (resetTimerFull m b now r) = code r"
  "code (stopTimer now r) = code r"
  "code (addScore tid pts r) = code r"
  "code (addRowDelta tid f pts r) = code r"
  "code (refreshRowScores r) = code r"
  "code (startNewTossupRow r) = code r"
  by (simp_all add: clearBuzz_def resetTimerFull_def setTimer_def stopTimer_def Let_def
      addScore_fields addRowDelta_fields refreshRowScores_fields startNewTossupRow_fields)

lemma keeps_wf_start: "keeps_wf (fst rs) (fst (fst (snd (on_host_start_tossup_reading now rs))))"
  by (simp add: keeps_wf_def on_host_start_tossup_reading_def Let_def split_beta fst_sched room_wf_intros)

lemma keeps_wf_done_tossup: "keeps_wf (fst rs) (fst (fst (snd (on_host_done_reading_tossup now rs))))"
  by (simp add: keeps_wf_def on_host_done_reading_tossup_def Let_def split_beta fst_sched room_wf_intros)

lemma keeps_wf_clear_buzz: "keeps_wf (fst rs) (fst (fst (snd (on_host_clear_buzz now rs))))"
  by (simp add: keeps_wf_def on_host_clear_buzz_def Let_def split_beta fst_sched room_wf_intros)

lemma keeps_wf_done_bonus: "keeps_wf (fst rs) (fst (fst (snd (on_host_done_reading_bonus now rs))))"
  by (simp add: keeps_wf_def on_host_done_reading_bonus_def Let_def split_beta fst_sched room_wf_intros)

lemma keeps_wf_skip_bonus: "keeps_wf (fst rs) (fst (fst (snd (on_host_skip_bonus now rs))))"
  by (simp add: keeps_wf_def on_host_skip_bonus_def endBonus_def Let_def split_beta fst_sched room_wf_intros)

lemma keeps_wf_award_bonus: "keeps_wf (fst rs) (fst (fst (snd (on_host_award_bonus pts now rs))))"
  by (simp add: keeps_wf_def on_host_award_bonus_def endBonus_def Let_def split_beta fst_sched room_wf_intros
      split: option.splits jsNumber.splits)

lemma keeps_wf_set_room_name: "keeps_wf (fst rs) (fst (fst (snd (on_host_set_room_name rn now rs))))"
  by (simp add: keeps_wf_def on_host_set_room_name_def Let_def)

lemma set_update_subset: "set (AList.update k v al) \<subseteq> insert (k, v) (set al)"
  by (induction al) auto

lemma set_delete_subset: "set (AList.delete k al) \<subseteq> set al"
  by (auto simp: AList.delete_eq)

lemma room_wf_players_update:
  assumes "room_wf r" and "\<And>t. teamId pl = Some t \<Longrightarrow> t \<noteq> [] \<Longrightarrow> t \<in> set (teamIds r)"
  shows "room_wf (r\<lparr>players := AList.update sid pl (players r)\<rparr>)"
proof -
  have "\<forall>e \<in> set (AList.update sid pl (players r)). \<forall>t. teamId (snd e) = Some t \<longrightarrow> t \<noteq> []
          \<longrightarrow> t \<in> set (teamIds r)"
    using assms set_update_subset [of sid pl "players r"] by (auto simp: room_wf_def)
  with assms(1) show ?thesis by (simp add: room_wf_def)
qed

lemma room_wf_players_delete:
  assumes "room_wf r"
  shows "room_wf (r\<lparr>players := AList.delete sid (players r)\<rparr>)"
  using assms set_delete_subset [of sid "players r"] by (auto simp: room_wf_def)

lemma map_of_Some_img: "map_of al k = Some v \<Longrightarrow> k \<in> fst ` set al"
  using map_of_Some_key [of al k v] by simp

lemma teamIds_prims [simp]:
  "teamIds (clearBuzz r) = teamIds r"
  "teamIds (resetTimerFull m b now r) = teamIds r"
  "teamIds (stopTimer now r) = teamIds r"
  by (simp_all add: clearBuzz_def resetTimerFull_def setTimer_def stopTimer_def Let_def)

lemma keeps_wf_join: "keeps_wf (fst rs) (fst (fst (snd (on_join_room sid nm tid spectate now c rs))))"
  by (auto simp: keeps_wf_def on_join_room_def Let_def teamIds_def map_of_Some_img
      intro!: room_wf_players_update split: option.splits)

lemma room_wf_team_name:
  assumes "room_wf r" and "map_of (teams r) i = Some t"
  shows "room_wf (r\<lparr>teams := AList.update i t' (teams r)\<rparr>)"
proof -
  have "teamIds (r\<lparr>teams := AList.update i t' (teams r)\<rparr>) = teamIds r"
    using assms(2) by (simp add: teamIds_def map_fst_update_Some)
  with assms(1) show ?thesis by (simp add: room_wf_def ledger_ok_def)
qed

lemma keeps_wf_set_team_name:
  "keeps_wf (fst rs) (fst (fst (snd (on_host_set_team_name tid nm now rs))))"
  by (auto simp: keeps_wf_def on_host_set_team_name_def Let_def intro: room_wf_team_name
      split: option.splits)

lemma room_wf_buzz:
  assumes "room_wf r" and "t \<noteq> []" and "t \<in> set (teamIds r)"
    and "t \<notin> set (tossupLockedTeams r)"
  shows "room_wf (r\<lparr>buzz := Locked a b t d e\<rparr>)"
  using assms by (simp add: room_wf_def)

lemma tossupLockedTeams_stopTimer [simp]:
  "tossupLockedTeams (stopTimer now r) = tossupLockedTeams r"
  by (simp add: stopTimer_def)

lemma player_team:
  "room_wf r \<Longrightarrow> map_of (players r) sid = Some pl \<Longrightarrow> teamId pl = Some t \<Longrightarrow> t \<noteq> []
     \<Longrightarrow> t \<in> set (teamIds r)"
  by (auto simp: room_wf_def dest!: map_of_SomeD)

lemma keeps_wf_buzz: "keeps_wf (fst rs) (fst (fst (snd (on_buzz sid now rs))))"
  by (auto simp: keeps_wf_def on_buzz_def Let_def split_beta fst_sched
      intro!: room_wf_buzz room_wf_stopTimer dest: player_team split: option.splits)

lemma keeps_wf_set_interrupt:
  "keeps_wf (fst rs) (fst (fst (snd (on_host_set_interrupt_choice i now rs))))"
  by (auto simp: keeps_wf_def on_host_set_interrupt_choice_def Let_def room_wf_def split: buzz.splits)

lemma keeps_wf_mark_answer:
  "keeps_wf (fst rs) (fst (fst (snd (on_host_mark_answer correct now rs))))"
  by (simp add: keeps_wf_def on_host_mark_answer_def Let_def split_beta fst_sched room_wf_intros
      split: buzz.splits option.splits)

lemma clock_fields [simp]:
  "phase (addScore tid pts r) = phase r"
  "buzz (addScore tid pts r) = buzz r"
  "timer (addScore tid pts r) = timer r"
  "phase (addRowDelta tid f pts r) = phase r"
  "buzz (addRowDelta tid f pts r) = buzz r"
  "timer (addRowDelta tid f pts r) = timer r"
  "phase (refreshRowScores r) = phase r"
  "buzz (refreshRowScores r) = buzz r"
  "timer (refreshRowScores r) = timer r"
  "phase (startNewTossupRow r) = phase r"
  "buzz (startNewTossupRow r) = buzz r"
  "timer (startNewTossupRow r) = timer r"
  by (simp_all add: addScore_fields addRowDelta_fields refreshRowScores_fields
      startNewTossupRow_fields)

lemma clock_ok_simps [simp]:
  "clock_ok (r\<lparr>roomName := a\<rparr>) = clock_ok r"
  "clock_ok (r\<lparr>teams := b\<rparr>) = clock_ok r"
  "clock_ok (r\<lparr>players := c\<rparr>) = clock_ok r"
  "clock_ok (r\<lparr>activeBonusTeamId := d\<rparr>) = clock_ok r"
  "clock_ok (r\<lparr>tossupLockedTeams := e\<rparr>) = clock_ok r"
  "clock_ok (r\<lparr>tossupEndTimeout := f\<rparr>) = clock_ok r"
  "clock_ok (r\<lparr>match := g\<rparr>) = clock_ok r"
  by (simp_all add: clock_ok_def)

lemma clock_start:
  "clock_ok (fst (fst (snd (on_host_start_tossup_reading now rs))))"
  if "clock_ok (fst rs)"
  using that
  by (simp add: clock_ok_def on_host_start_tossup_reading_def Let_def split_beta fst_sched
      clearBuzz_def resetTimerFull_def setTimer_def isBonusPhase_def)

lemma clock_done_tossup:
  "clock_ok (fst (fst (snd (on_host_done_reading_tossup now rs))))"
  if "clock_ok (fst rs)"
  using that
  by (simp add: clock_ok_def on_host_done_reading_tossup_def Let_def split_beta fst_sched
      clearBuzz_def resetTimerFull_def setTimer_def)

lemma clock_buzz:
  "clock_ok (fst (fst (snd (on_buzz sid now rs))))"
  if "clock_ok (fst rs)"
  using that
  by (auto simp: clock_ok_def on_buzz_def Let_def split_beta fst_sched stopTimer_def
      split: option.splits)

lemma clock_clear_buzz:
  "clock_ok (fst (fst (snd (on_host_clear_buzz now rs))))"
  if "clock_ok (fst rs)"
  using that
  by (simp add: clock_ok_def on_host_clear_buzz_def Let_def split_beta fst_sched clearBuzz_def)

lemma clock_set_interrupt:
  "clock_ok (fst (fst (snd (on_host_set_interrupt_choice i now rs))))"
  if "clock_ok (fst rs)"
  using that
  by (auto simp: clock_ok_def on_host_set_interrupt_choice_def Let_def split: buzz.splits)

lemma clock_mark_answer:
  "clock_ok (fst (fst (snd (on_host_mark_answer correct now rs))))"
  if "clock_ok (fst rs)"
  using that
  by (auto simp: clock_ok_def on_host_mark_answer_def Let_def split_beta fst_sched
      clearBuzz_def resetTimerFull_def setTimer_def split: buzz.splits option.splits)

lemma clock_done_bonus:
  "clock_ok (fst (fst (snd (on_host_done_reading_bonus now rs))))"
  if "clock_ok (fst rs)"
  using that
  by (auto simp: clock_ok_def on_host_done_reading_bonus_def Let_def
      resetTimerFull_def setTimer_def)

lemma clock_award_bonus:
  "clock_ok (fst (fst (snd (on_host_award_bonus pts now rs))))"
  if "clock_ok (fst rs)"
  using that
  by (auto simp: clock_ok_def on_host_award_bonus_def endBonus_def Let_def
      clearBuzz_def resetTimerFull_def setTimer_def split: option.splits jsNumber.splits)

lemma clock_skip_bonus:
  "clock_ok (fst (fst (snd (on_host_skip_bonus now rs))))"
  if "clock_ok (fst rs)"
  using that
  by (auto simp: clock_ok_def on_host_skip_bonus_def endBonus_def Let_def
      clearBuzz_def resetTimerFull_def setTimer_def)

lemma clock_set_room_name:
  "clock_ok (fst (fst (snd (on_host_set_room_name rn now rs))))"
  if "clock_ok (fst rs)"
  using that by (simp add: on_host_set_room_name_def Let_def clock_ok_def)

lemma clock_set_team_name:
  "clock_ok (fst (fst (snd (on_host_set_team_name tid nm now rs))))"
  if "clock_ok (fst rs)"
  using that by (simp add: on_host_set_team_name_def Let_def split: option.splits)

lemma clock_join:
  "clock_ok (fst (fst (snd (on_join_room sid nm tid spectate now c rs))))"
  if "clock_ok (fst rs)"
  using that by (simp add: on_join_room_def Let_def)

lemma keepsI:
  assumes "keeps_wf r r'" and "clock_ok r \<Longrightarrow> clock_ok r'"
  shows "keeps r r'"
  using assms by (simp add: keeps_def keeps_wf_def room_ok_def)

lemma keeps_start: "keeps (fst rs) (fst (fst (snd (on_host_start_tossup_reading now rs))))"
  by (rule keepsI [OF keeps_wf_start clock_start])

lemma keeps_done_tossup: "keeps (fst rs) (fst (fst (snd (on_host_done_reading_tossup now rs))))"
  by (rule keepsI [OF keeps_wf_done_tossup clock_done_tossup])

lemma keeps_clear_buzz: "keeps (fst rs) (fst (fst (snd (on_host_clear_buzz now rs))))"
  by (rule keepsI [OF keeps_wf_clear_buzz clock_clear_buzz])

lemma keeps_done_bonus: "keeps (fst rs) (fst (fst (snd (on_host_done_reading_bonus now rs))))"
  by (rule keepsI [OF keeps_wf_done_bonus clock_done_bonus])

lemma keeps_skip_bonus: "keeps (fst rs) (fst (fst (snd (on_host_skip_bonus now rs))))"
  by (rule keepsI [OF keeps_wf_skip_bonus clock_skip_bonus])

lemma keeps_award_bonus: "keeps (fst rs) (fst (fst (snd (on_host_award_bonus pts now rs))))"
  by (rule keepsI [OF keeps_wf_award_bonus clock_award_bonus])

lemma keeps_set_room_name: "keeps (fst rs) (fst (fst (snd (on_host_set_room_name rn now rs))))"
  by (rule keepsI [OF keeps_wf_set_room_name clock_set_room_name])

lemma keeps_set_team_name:
  "keeps (fst rs) (fst (fst (snd (on_host_set_team_name tid nm now rs))))"
  by (rule keepsI [OF keeps_wf_set_team_name clock_set_team_name])

lemma keeps_join: "keeps (fst rs) (fst (fst (snd (on_join_room sid nm tid spectate now c rs))))"
  by (rule keepsI [OF keeps_wf_join clock_join])

lemma keeps_buzz: "keeps (fst rs) (fst (fst (snd (on_buzz sid now rs))))"
  by (rule keepsI [OF keeps_wf_buzz clock_buzz])

lemma keeps_set_interrupt:
  "keeps (fst rs) (fst (fst (snd (on_host_set_interrupt_choice i now rs))))"
  by (rule keepsI [OF keeps_wf_set_interrupt clock_set_interrupt])

lemma keeps_mark_answer:
  "keeps (fst rs) (fst (fst (snd (on_host_mark_answer correct now rs))))"
  by (rule keepsI [OF keeps_wf_mark_answer clock_mark_answer])

lemma room_ok_players_delete:
  "room_ok r \<Longrightarrow> room_ok (r\<lparr>players := AList.delete sid (players r)\<rparr>)"
  by (simp add: room_ok_def room_wf_players_delete)

lemma world_ok_update:
  assumes "world_ok w" and "map_of (rooms w) c = Some r" and "keeps r r'"
  shows "world_ok (w\<lparr>rooms := AList.update c r' (rooms w), sched := s\<rparr>)"
proof -
  from assms(1,2) have r: "code r = c" "room_ok r"
    by (auto simp: world_ok_def dest!: map_of_SomeD)
  with assms(3) have r': "code r' = c" "room_ok r'" by (simp_all add: keeps_def)
  have "distinct (map fst (AList.update c r' (rooms w)))"
    using assms(1) by (simp add: world_ok_def distinct_update)
  moreover have "\<forall>e \<in> set (AList.update c r' (rooms w)). code (snd e) = fst e \<and> room_ok (snd e)"
    using assms(1) r' set_update_subset [of c r' "rooms w"] by (auto simp: world_ok_def)
  ultimately show ?thesis by (simp add: world_ok_def)
qed

lemma world_ok_withRoom:
  assumes "world_ok w" and "\<And>c' rs. keeps (fst rs) (fst (fst (snd (body c' rs))))"
  shows "world_ok (fst (snd (withRoom c sid w body)))"
proof (cases "map_of (rooms w) c")
  case None
  then show ?thesis using assms(1) by (simp add: withRoom_def requireRoom_def)
next
  case (Some r)
  obtain out r' s' es where b: "body c (r, sched w) = (out, (r', s'), es)"
    by (metis prod.exhaust)
  have "keeps r r'" using assms(2) [of "(r, sched w)" c] b by simp
  then show ?thesis
    using Some b assms(1) by (simp add: withRoom_def requireRoom_def world_ok_update)
qed

lemma keeps_refl: "keeps r r"
  by (simp add: keeps_def)

lemma world_ok_withHostRoom:
  assumes "world_ok w" and "\<And>rs. keeps (fst rs) (fst (fst (snd (body rs))))"
  shows "world_ok (fst (snd (withHostRoom c sid w body)))"
  unfolding withHostRoom_def
proof (rule world_ok_withRoom [OF assms(1)])
  fix c' rs
  show "keeps (fst rs) (fst (fst (snd (case requireHost (fst rs) sid of
           (False, es) \<Rightarrow> (Dropped, rs, es)
         | (True, es) \<Rightarrow> (case body rs of (out, rs', es') \<Rightarrow> (out, rs', es @ es'))))))"
    using assms(2) [of rs] by (simp add: requireHost_def keeps_refl split_beta)
qed

lemma update_append_new: "k \<notin> fst ` set al \<Longrightarrow> AList.update k v al = al @ [(k, v)]"
  by (induction al) auto

lemma teamsLoop_distinct:
  assumes "distinct (map ids [0..<n])"
  shows "teamsLoop ids n =
           map (\<lambda>i. (ids i, \<lparr>team_id = ids i, team_name = ''Team '' @ [char_of (65 + i)], score = 0\<rparr>))
               [0..<n]"
  using assms
proof (induction n)
  case 0
  then show ?case by (simp add: teamsLoop_def)
next
  case (Suc n)
  then have IH: "teamsLoop ids n =
           map (\<lambda>i. (ids i, \<lparr>team_id = ids i, team_name = ''Team '' @ [char_of (65 + i)], score = 0\<rparr>))
               [0..<n]" by simp
  from Suc.prems have new: "ids n \<notin> ids ` {0..<n}" by auto
  have "teamsLoop ids (Suc n) =
          AList.update (ids n)
            \<lparr>team_id = ids n, team_name = ''Team '' @ [char_of (65 + n)], score = 0\<rparr> (teamsLoop ids n)"
    by (simp add: teamsLoop_def)
  also have "\<dots> = teamsLoop ids n @
       [(ids n, \<lparr>team_id = ids n, team_name = ''Team '' @ [char_of (65 + n)], score = 0\<rparr>)]"
    using new by (intro update_append_new) (simp add: IH image_image)
  finally show ?case by (simp add: IH)
qed

lemma teamCount_bounds:
  "2 \<le> nat (case n of Finite x \<Rightarrow> min 8 (max 2 (mathRound x)) | NotFinite \<Rightarrow> 2)"
  "nat (case n of Finite x \<Rightarrow> min 8 (max 2 (mathRound x)) | NotFinite \<Rightarrow> 2) \<le> 8"
  by (auto split: jsNumber.splits)

lemma distinct_prefix:
  assumes "distinct (map ids [0..<8])" and "n \<le> 8"
  shows "distinct (map ids [0..<n])"
proof -
  have "inj_on ids (set [0..<8])" using assms(1) by (simp add: distinct_map)
  then have "inj_on ids (set [0..<n])" using assms(2) by (auto intro: inj_on_subset)
  then show ?thesis by (simp add: distinct_map)
qed

lemma world_ok_create:
  assumes "world_ok w" and "distinct (map ids [0..<8])" and "list_all (\<lambda>i. ids i \<noteq> []) [0..<8]"
  shows "world_ok (fst (snd (on_create_room sid hn rn n rnd ids now w)))"
proof -
  define k where "k = nat (case n of Finite x \<Rightarrow> min 8 (max 2 (mathRound x)) | NotFinite \<Rightarrow> 2)"
  have k: "2 \<le> k" "k \<le> 8" unfolding k_def by (rule teamCount_bounds)+
  have d: "distinct (map ids [0..<k])" using assms(2) k(2) by (rule distinct_prefix)
  have ne: "\<forall>i<k. ids i \<noteq> []" using assms(3) k(2) by (auto simp: list_all_iff)
  have ids: "map fst (teamsLoop ids k) = map ids [0..<k]"
    by (simp add: teamsLoop_distinct [OF d] comp_def)
  obtain r where r: "fst (snd (on_create_room sid hn rn n rnd ids now w))
       = w\<lparr>rooms := AList.update (genCode rnd) r (rooms w)\<rparr>"
     and c: "code r = genCode rnd" and t: "teams r = teamsLoop ids k"
     and rest: "timer r = \<lparr>mode = tossup, running = False, remainingMs = 5 * 1000, endsAtMs = 0\<rparr>"
        "settings r = \<lparr>tossupSeconds = 5, bonusSeconds = 20\<rparr>"
        "set (players r) = {(sid, \<lparr>socketId = sid, name = name (snd (hd (players r))), teamId = None, isHost = True, isSpectator = False\<rparr>)}"
        "buzz r = Unlocked" "rows (match r) = []"
    by (simp add: on_create_room_def Let_def k_def)
  have "room_ok r"
    using k d ne by (auto simp: room_ok_def room_wf_def clock_ok_def rest ledger_ok_def teamIds_def t ids)
  moreover have "distinct (map fst (AList.update (genCode rnd) r (rooms w)))"
    using assms(1) by (simp add: world_ok_def distinct_update)
  ultimately show ?thesis
    using assms(1) c set_update_subset [of "genCode rnd" r "rooms w"]
    by (auto simp: r world_ok_def)
qed

lemma world_ok_delete:
  assumes "world_ok w"
  shows "world_ok (w\<lparr>rooms := AList.delete c (rooms w), sched := s\<rparr>)"
  using assms set_delete_subset [of c "rooms w"]
  by (auto simp: world_ok_def distinct_delete)

lemma world_ok_put:
  assumes "world_ok w" and "code r = c" and "room_ok r"
  shows "world_ok (w\<lparr>rooms := AList.update c r (rooms w)\<rparr>)"
  using assms set_update_subset [of c r "rooms w"]
  by (auto simp: world_ok_def distinct_update)

lemma world_ok_disconnectLoop:
  assumes "world_ok w" and "\<forall>e \<in> set es. code (snd e) = fst e \<and> room_ok (snd e)"
  shows "world_ok (fst (disconnectLoop sid now es w))"
  using assms
proof (induction es arbitrary: w)
  case Nil
  then show ?case by simp
next
  case (Cons e es)
  show ?case
  proof (cases "map_of (players (snd e)) sid = None")
    case True
    then show ?thesis using Cons by simp
  next
    case False
    then obtain y where y: "map_of (players (snd e)) sid = Some y" by auto
    let ?r = "(snd e)\<lparr>players := AList.delete sid (players (snd e))\<rparr>"
    have ok: "room_ok ?r" "code ?r = fst e"
      using Cons.prems(2) by (simp_all add: room_ok_players_delete)
    show ?thesis
    proof (cases "hostSocketId (snd e) = sid")
      case True
      have "world_ok (w\<lparr>rooms := AList.delete (code (fst (clearTossupEndTimeout (?r, sched w)))) (rooms w),
                        sched := snd (clearTossupEndTimeout (?r, sched w))\<rparr>)"
        using Cons.prems(1) by (rule world_ok_delete)
      then show ?thesis
        using y True Cons.IH Cons.prems(2) by (simp add: Let_def split_beta)
    next
      case F2: False
      have "world_ok (w\<lparr>rooms := AList.update (fst e) ?r (rooms w)\<rparr>)"
        using Cons.prems(1) ok by (intro world_ok_put) simp_all
      then show ?thesis
        using y F2 Cons.IH Cons.prems(2) by (simp add: Let_def split_beta)
    qed
  qed
qed

lemma world_ok_disconnect:
  "world_ok w \<Longrightarrow> world_ok (fst (snd (on_disconnect sid now w)))"
  using world_ok_disconnectLoop [of w "rooms w" sid now]
  by (simp add: on_disconnect_def split_beta world_ok_def)

lemma world_ok_sched [simp]: "world_ok (w\<lparr>sched := s\<rparr>) = world_ok w"
  by (simp add: world_ok_def)

lemma world_ok_callback:
  assumes "world_ok w"
  shows "world_ok (fst (tossupEndCallback c now w))"
proof (cases "map_of (rooms w) c")
  case None
  then show ?thesis using assms by (simp add: tossupEndCallback_def)
next
  case (Some r)
  then have r: "code r = c" "room_ok r"
    using assms by (auto simp: world_ok_def dest!: map_of_SomeD)
  let ?r' = "clearBuzz (r\<lparr>phase := tossup_closed,
                timer := (timer r)\<lparr>running := False, remainingMs := 0, endsAtMs := 0\<rparr>\<rparr>)"
  have "room_ok ?r'" using r(2) by (simp add: room_ok_def room_wf_def clock_ok_def clearBuzz_def)
  then have "world_ok (w\<lparr>rooms := AList.update c ?r' (rooms w)\<rparr>)"
    using assms r(1) by (intro world_ok_put) (simp_all add: clearBuzz_def)
  then show ?thesis
    using Some assms by (simp add: tossupEndCallback_def Let_def)
qed

lemma world_ok_fire: "world_ok w \<Longrightarrow> world_ok (fst (fireTimeout h now w))"
  by (simp add: fireTimeout_def world_ok_callback split: option.splits prod.splits)

lemma world_ok_handle:
  assumes "world_ok w" and "env_ok (Command now sid cmd)"
  shows "world_ok (fst (snd (handle now sid cmd w)))"
proof (cases cmd)
  case (CreateRoom hn rn n rnd ids)
  then show ?thesis using assms by (simp add: world_ok_create)
next
  case (JoinRoom c nm tid sp)
  then show ?thesis using assms(1) by (simp add: world_ok_withRoom keeps_join)
next
  case (Buzz c)
  then show ?thesis using assms(1) by (simp add: world_ok_withRoom keeps_buzz)
next
  case Disconnect
  then show ?thesis using assms(1) by (simp add: world_ok_disconnect)
qed (use assms(1) in \<open>simp_all add: world_ok_withHostRoom keeps_set_room_name keeps_set_team_name
      keeps_start keeps_done_tossup keeps_clear_buzz keeps_set_interrupt keeps_mark_answer
      keeps_done_bonus keeps_award_bonus keeps_skip_bonus\<close>)

lemma world_ok_step: "world_ok w \<Longrightarrow> env_ok e \<Longrightarrow> world_ok (fst (step e w))"
  by (cases e) (simp_all add: world_ok_handle world_ok_fire)

lemma world_ok_init: "world_ok init_world"
  by (simp add: world_ok_def init_world_def)

lemma run_snoc: "run (evs @ [e]) w = fst (step e (run evs w))"
  by (simp add: run_def)

lemma world_ok_run: "list_all env_ok evs \<Longrightarrow> world_ok (run evs init_world)"
proof (induction evs rule: rev_induct)
  case Nil
  then show ?case by (simp add: run_def world_ok_init)
next
  case (snoc e evs)
  then show ?case by (simp add: run_snoc world_ok_step)
qed

lemma room_ok_run:
  assumes "list_all env_ok evs" and "map_of (rooms (run evs init_world)) c = Some r"
  shows "room_ok r" and "code r = c"
  using world_ok_run [OF assms(1)] assms(2) by (auto simp: world_ok_def dest!: map_of_SomeD)

lemma timer_stopped_at_zero:
  "t\<lparr>running := False, remainingMs := 0, endsAtMs := 0\<rparr> =
     \<lparr>mode = mode t, running = False, remainingMs = 0, endsAtMs = 0\<rparr>"
  by (cases t) simp

lemma callback_cases:
  "tossupEndCallback c now w =
     (case map_of (rooms w) c of
        None \<Rightarrow> (w, [])
      | Some r \<Rightarrow>
          if phase r = tossup_live \<and> max 0 (endsAtMs (timer r) - now) = 0 \<and> buzz r = Unlocked
          then let r' = r\<lparr>phase := tossup_closed,
                          timer := \<lparr>mode = mode (timer r), running = False, remainingMs = 0,
                                     endsAtMs = 0\<rparr>,
                          buzz := Unlocked\<rparr>
               in (w\<lparr>rooms := AList.update c r' (rooms w)\<rparr>, [broadcast r' now])
          else (w, []))"
  by (simp add: tossupEndCallback_def clearBuzz_def Let_def timer_stopped_at_zero
      split: option.splits)

lemma callback_locked:
  assumes "map_of (rooms w) c = Some r" and "buzz r \<noteq> Unlocked"
  shows "map_of (rooms (fst (tossupEndCallback d now w))) c = Some r"
    and "c = d \<Longrightarrow> tossupEndCallback d now w = (w, [])"
  using assms by (auto simp: callback_cases Let_def update_conv' split: option.splits)

lemma withHostRoom_host:
  assumes "map_of (rooms w) c = Some r" and "hostSocketId r = sid"
  shows "withHostRoom c sid w body =
           (case body (r, sched w) of
              (out, (r', s'), es) \<Rightarrow>
                (out, w\<lparr>rooms := AList.update c r' (rooms w), sched := s'\<rparr>, es))"
  using assms
  by (simp add: withHostRoom_def withRoom_def requireRoom_def requireHost_def split: prod.splits)

lemma clearTossupEndTimeout_eq:
  "clearTossupEndTimeout (r, s) =
     (r\<lparr>tossupEndTimeout := None\<rparr>,
      s\<lparr>pending := (case tossupEndTimeout r of None \<Rightarrow> pending s
                     | Some h \<Rightarrow> AList.delete h (pending s))\<rparr>)"
  by (simp add: clearTossupEndTimeout_def split: option.splits)

lemma scheduleTossupEnd_eq:
  "scheduleTossupEnd now (r, s) =
     (r\<lparr>tossupEndTimeout := Some (nextTimeoutId s)\<rparr>,
      s\<lparr>pending := (case tossupEndTimeout r of None \<Rightarrow> pending s
                     | Some h \<Rightarrow> AList.delete h (pending s))
                    @ [(nextTimeoutId s, code r, now + remainingMs (timer r) + 15)],
        nextTimeoutId := nextTimeoutId s + 1\<rparr>)"
  by (simp add: scheduleTossupEnd_def clearTossupEndTimeout_eq Let_def)

lemma mathRound_of_int: "mathRound (of_int n) = n"
  unfolding mathRound_def by (rule floor_unique) simp_all

lemma create_room_rooms:
  "rooms (fst (snd (handle now sid (CreateRoom hn rn n rnd ids) w)))
     = AList.update (genCode rnd)
         (the (map_of (rooms (fst (snd (handle now sid (CreateRoom hn rn n rnd ids) w))))
                 (genCode rnd)))
         (rooms w)"
  "code (the (map_of (rooms (fst (snd (handle now sid (CreateRoom hn rn n rnd ids) w))))
                 (genCode rnd))) = genCode rnd"
  "hostSocketId (the (map_of (rooms (fst (snd (handle now sid (CreateRoom hn rn n rnd ids) w))))
                 (genCode rnd))) = sid"
  by (simp_all add: on_create_room_def Let_def update_conv')

lemma dropped_set_room_name:
  "on_host_set_room_name rn now rs = (Dropped, rs', es) \<Longrightarrow> rs' = rs \<and> es = []"
  by (simp add: on_host_set_room_name_def Let_def split: if_splits)

lemma dropped_set_team_name:
  "on_host_set_team_name tid nm now rs = (Dropped, rs', es) \<Longrightarrow> rs' = rs \<and> es = []"
  by (simp add: on_host_set_team_name_def Let_def split: if_splits option.splits)

lemma dropped_join:
  "on_join_room sid nm tid sp now c rs = (Dropped, rs', es) \<Longrightarrow>
     rs' = rs \<and> es = [SocketJoin sid c, EmitErrorMsg sid ''Choose a team before joining.'']"
  by (simp add: on_join_room_def Let_def split: if_splits)

lemma dropped_start:
  "on_host_start_tossup_reading now rs = (Dropped, rs', es) \<Longrightarrow> rs' = rs \<and> es = []"
  by (simp add: on_host_start_tossup_reading_def Let_def split_beta split: if_splits)

lemma dropped_done_tossup:
  "on_host_done_reading_tossup now rs = (Dropped, rs', es) \<Longrightarrow> rs' = rs \<and> es = []"
  by (simp add: on_host_done_reading_tossup_def Let_def split_beta split: if_splits)

lemma dropped_buzz:
  "on_buzz sid now rs = (Dropped, rs', es) \<Longrightarrow> rs' = rs \<and> es = []"
  by (simp add: on_buzz_def Let_def split_beta split: if_splits option.splits)

lemma dropped_clear_buzz:
  "on_host_clear_buzz now rs = (Dropped, rs', es) \<Longrightarrow> rs' = rs \<and> es = []"
  by (simp add: on_host_clear_buzz_def Let_def split_beta)

lemma dropped_set_interrupt:
  "on_host_set_interrupt_choice i now rs = (Dropped, rs', es) \<Longrightarrow> rs' = rs \<and> es = []"
  by (simp add: on_host_set_interrupt_choice_def Let_def split: buzz.splits)

lemma dropped_mark_answer:
  "on_host_mark_answer correct now rs = (Dropped, rs', es) \<Longrightarrow> rs' = rs \<and> es = []"
  by (simp add: on_host_mark_answer_def Let_def split_beta split: if_splits option.splits buzz.splits)

lemma dropped_done_bonus:
  "on_host_done_reading_bonus now rs = (Dropped, rs', es) \<Longrightarrow> rs' = rs \<and> es = []"
  by (simp add: on_host_done_reading_bonus_def Let_def split: if_splits)

lemma dropped_award_bonus:
  "on_host_award_bonus pts now rs = (Dropped, rs', es) \<Longrightarrow> rs' = rs \<and> es = []"
  by (simp add: on_host_award_bonus_def Let_def split: if_splits option.splits jsNumber.splits)

lemma dropped_skip_bonus:
  "on_host_skip_bonus now rs = (Dropped, rs', es) \<Longrightarrow> rs' = rs \<and> es = []"
  by (simp add: on_host_skip_bonus_def Let_def split: if_splits)

lemma world_put_back:
  "map_of (rooms w) c = Some r \<Longrightarrow> w\<lparr>rooms := AList.update c r (rooms w), sched := sched w\<rparr> = w"
  by (simp add: update_triv)

lemma dropped_withRoom:
  assumes "withRoom c sid w body = (Dropped, w', es)"
    and "\<And>rs rs' es'. body c rs = (Dropped, rs', es') \<Longrightarrow> rs' = rs \<and> P es'"
  shows "w' = w \<and> (es = [EmitErrorMsg sid ''Room not found.''] \<or> P es)"
proof (cases "map_of (rooms w) c")
  case None
  then show ?thesis using assms(1) by (auto simp: withRoom_def requireRoom_def)
next
  case (Some r)
  obtain out r' s' es' where b: "body c (r, sched w) = (out, (r', s'), es')"
    by (metis prod.exhaust)
  from assms(1) Some b have o: "out = Dropped" "es = es'"
     and w': "w' = w\<lparr>rooms := AList.update c r' (rooms w), sched := s'\<rparr>"
    by (simp_all add: withRoom_def requireRoom_def)
  from assms(2) [of "(r, sched w)" "(r', s')" es'] b o have "r' = r" "s' = sched w" "P es'"
    by simp_all
  then show ?thesis using w' o Some by (simp add: world_put_back)
qed

lemma dropped_withHostRoom:
  assumes "withHostRoom c sid w body = (Dropped, w', es)"
    and "\<And>rs rs' es'. body rs = (Dropped, rs', es') \<Longrightarrow> rs' = rs \<and> es' = []"
  shows "w' = w \<and> (es = [EmitErrorMsg sid ''Room not found.'']
                  \<or> es = [EmitErrorMsg sid ''Host only.''] \<or> es = [])"
proof -
  have "w' = w \<and> (es = [EmitErrorMsg sid ''Room not found.'']
                  \<or> (es = [EmitErrorMsg sid ''Host only.''] \<or> es = []))"
  proof (rule dropped_withRoom [OF assms(1) [unfolded withHostRoom_def]])
    fix rs rs' es'
    assume a: "(case requireHost (fst rs) sid of
                  (False, es) \<Rightarrow> (Dropped, rs, es)
                | (True, es) \<Rightarrow> (case body rs of (out, rs', es') \<Rightarrow> (out, rs', es @ es')))
               = (Dropped, rs', es')"
    show "rs' = rs \<and> (es' = [EmitErrorMsg sid ''Host only.''] \<or> es' = [])"
    proof (cases "hostSocketId (fst rs) = sid")
      case True
      obtain out rs2 es2 where b: "body rs = (out, rs2, es2)" by (metis prod.exhaust)
      with a True have "out = Dropped" "rs2 = rs'" "es2 = es'"
        by (simp_all add: requireHost_def)
      with assms(2) [of rs rs' es'] b show ?thesis by simp
    next
      case False
      with a show ?thesis by (auto simp: requireHost_def)
    qed
  qed
  then show ?thesis by blast
qed

lemma withRoom_unknown:
  "map_of (rooms w) c = None \<Longrightarrow>
     withRoom c sid w body = (Dropped, w, [EmitErrorMsg sid ''Room not found.''])"
  by (simp add: withRoom_def requireRoom_def)

lemma withHostRoom_unknown:
  "map_of (rooms w) c = None \<Longrightarrow>
     withHostRoom c sid w body = (Dropped, w, [EmitErrorMsg sid ''Room not found.''])"
  by (simp add: withHostRoom_def withRoom_unknown)

lemma withHostRoom_not_host:
  "map_of (rooms w) c = Some r \<Longrightarrow> hostSocketId r \<noteq> sid \<Longrightarrow>
     withHostRoom c sid w body = (Dropped, w, [EmitErrorMsg sid ''Host only.''])"
  by (simp add: withHostRoom_def withRoom_def requireRoom_def requireHost_def world_put_back)

lemma map_of_refreshCell:
  "map_of (refreshCell cells e) x =
     (if x = fst e then map_option (\<lambda>c. c\<lparr>row_score := score (snd e)\<rparr>) (map_of cells x)
      else map_of cells x)"
  by (simp add: refreshCell_def update_conv' split: option.splits)

lemma map_of_foldl_refreshCell:
  assumes "distinct (map fst ts)"
  shows "map_of (foldl refreshCell cells ts) x =
           (case map_of cells x of
              None \<Rightarrow> None
            | Some c \<Rightarrow> Some (case map_of ts x of None \<Rightarrow> c
                              | Some tm \<Rightarrow> c\<lparr>row_score := score tm\<rparr>))"
  using assms
proof (induction ts arbitrary: cells)
  case Nil
  then show ?case by (simp split: option.splits)
next
  case (Cons e ts)
  then have d: "distinct (map fst ts)" and n: "map_of ts (fst e) = None"
    by (auto simp: map_of_eq_None_iff)
  show ?case
  proof (cases "x = fst e")
    case True
    then show ?thesis
      using Cons.IH [OF d, of "refreshCell cells e"] n
      by (cases e) (simp add: map_of_refreshCell split: option.splits)
  next
    case False
    then show ?thesis
      using Cons.IH [OF d, of "refreshCell cells e"]
      by (cases e) (simp add: map_of_refreshCell split: option.splits)
  qed
qed

lemma currentRow_setCurrentRow: "currentRow (setCurrentRow y r) = Some y"
  by (simp add: currentRow_def setCurrentRow_def)

lemma cellOf_empty: "rows (match r) = [] \<Longrightarrow> cellOf r x = None"
  by (simp add: cellOf_def currentRow_def)

lemma cellOf_addRowDelta:
  "cellOf (addRowDelta tid f pts r) x =
     (if x = tid then map_option (addField f pts) (cellOf r x) else cellOf r x)"
  by (simp add: cellOf_def addRowDelta_def currentRow_setCurrentRow update_conv'
      split: option.splits)

lemma cellOf_refreshRowScores:
  assumes "distinct (teamIds r)"
  shows "cellOf (refreshRowScores r) x =
           (case cellOf r x of
              None \<Rightarrow> None
            | Some c \<Rightarrow> Some (case scoreOf r x of None \<Rightarrow> c | Some s \<Rightarrow> c\<lparr>row_score := s\<rparr>))"
  using assms
  by (simp add: cellOf_def refreshRowScores_def currentRow_setCurrentRow scoreOf_def teamIds_def
      map_of_foldl_refreshCell split: option.splits)

lemma scoreOf_addScore:
  "scoreOf (addScore tid pts r) x =
     (if x = tid then map_option (\<lambda>s. jsAdd s pts) (scoreOf r x) else scoreOf r x)"
  by (simp add: scoreOf_def addScore_def update_conv' split: option.splits)

lemma scoreOf_frame [simp]:
  "scoreOf (addRowDelta tid f pts r) = scoreOf r"
  "scoreOf (refreshRowScores r) = scoreOf r"
  "scoreOf (clearBuzz r) = scoreOf r"
  "scoreOf (resetTimerFull m b now r) = scoreOf r"
  "scoreOf (r\<lparr>phase := ph\<rparr>) = scoreOf r"
  "scoreOf (r\<lparr>activeBonusTeamId := a\<rparr>) = scoreOf r"
  "scoreOf (r\<lparr>tossupLockedTeams := l\<rparr>) = scoreOf r"
  "scoreOf (r\<lparr>tossupEndTimeout := h\<rparr>) = scoreOf r"
  by (simp_all add: scoreOf_def fun_eq_iff addRowDelta_fields refreshRowScores_fields
      clearBuzz_def resetTimerFull_def setTimer_def Let_def)

lemma cellOf_frame [simp]:
  "cellOf (addScore tid pts r) = cellOf r"
  "cellOf (clearBuzz r) = cellOf r"
  "cellOf (resetTimerFull m b now r) = cellOf r"
  "cellOf (r\<lparr>phase := ph\<rparr>) = cellOf r"
  "cellOf (r\<lparr>activeBonusTeamId := a\<rparr>) = cellOf r"
  "cellOf (r\<lparr>tossupLockedTeams := l\<rparr>) = cellOf r"
  "cellOf (r\<lparr>tossupEndTimeout := h\<rparr>) = cellOf r"
  by (simp_all add: cellOf_def currentRow_def fun_eq_iff addScore_fields
      clearBuzz_def resetTimerFull_def setTimer_def Let_def)

lemma map_butlast_last: "xs \<noteq> [] \<Longrightarrow> map f (butlast xs) @ [f (last xs)] = map f xs"
  by (induction xs) auto

lemma rows_shape_addRowDelta:
  "length (rows (match (addRowDelta tid f pts r))) = length (rows (match r))"
  "butlast (rows (match (addRowDelta tid f pts r))) = butlast (rows (match r))"
  "tossupNumber (match (addRowDelta tid f pts r)) = tossupNumber (match r)"
  "map num (rows (match (addRowDelta tid f pts r))) = map num (rows (match r))"
  by (auto simp: addRowDelta_def setCurrentRow_def currentRow_def map_butlast_last
      split: option.splits if_splits)

lemma rows_shape_refreshRowScores:
  "length (rows (match (refreshRowScores r))) = length (rows (match r))"
  "butlast (rows (match (refreshRowScores r))) = butlast (rows (match r))"
  "tossupNumber (match (refreshRowScores r)) = tossupNumber (match r)"
  "map num (rows (match (refreshRowScores r))) = map num (rows (match r))"
  by (auto simp: refreshRowScores_def setCurrentRow_def currentRow_def map_butlast_last
      split: option.splits if_splits)

lemma team_of_id:
  assumes "x \<in> set (teamIds r)"
  shows "\<exists>tm. map_of (teams r) x = Some tm"
proof (cases "map_of (teams r) x")
  case None
  then show ?thesis using assms by (simp add: teamIds_def map_of_eq_None_iff)
qed simp

lemma scoreOf_of_id: "x \<in> set (teamIds r) \<Longrightarrow> \<exists>s. scoreOf r x = Some s"
  using team_of_id [of x r] by (auto simp: scoreOf_def)

lemma cellOf_keys:
  assumes "ledger_ok r" and "cellOf r x = Some cx"
  shows "x \<in> set (teamIds r)"
proof -
  from assms(2) obtain cur where cur: "currentRow r = Some cur" "map_of (row_teams cur) x = Some cx"
    by (auto simp: cellOf_def split: option.splits)
  then have "x \<in> set (map fst (row_teams cur))" by (auto dest: map_of_Some_key)
  then show ?thesis using currentRow_keys [OF assms(1) cur(1)] by simp
qed

lemma cellOf_of_id:
  assumes "ledger_ok r" and "rows (match r) \<noteq> []" and "x \<in> set (teamIds r)"
  shows "\<exists>cx. cellOf r x = Some cx"
proof -
  from assms(2) have cur: "currentRow r = Some (last (rows (match r)))"
    by (simp add: currentRow_def)
  have "map fst (row_teams (last (rows (match r)))) = teamIds r"
    by (rule currentRow_keys [OF assms(1) cur])
  with assms(3) have "x \<in> fst ` set (row_teams (last (rows (match r))))"
    using set_map [of fst "row_teams (last (rows (match r)))"] by simp
  then have "map_of (row_teams (last (rows (match r)))) x \<noteq> None"
    by (simp add: map_of_eq_None_iff)
  then show ?thesis by (auto simp: cellOf_def cur)
qed

lemma scored_ledger:
  assumes "room_ok r"
  shows "rows (match r) = [] \<longrightarrow>
           match (refreshRowScores (addRowDelta t f 4 (addScore t 4 r))) = match r"
    and "cellOf r x = Some cx \<Longrightarrow>
           cellOf (refreshRowScores (addRowDelta t f 4 (addScore t 4 r))) x =
             Some ((if x = t then addField f 4 cx else cx)
                     \<lparr>row_score := the (scoreOf (addScore t 4 r) x)\<rparr>)"
proof -
  show "rows (match r) = [] \<longrightarrow>
           match (refreshRowScores (addRowDelta t f 4 (addScore t 4 r))) = match r"
    by (simp add: refreshRowScores_def addRowDelta_def currentRow_def addScore_fields)
next
  assume cx: "cellOf r x = Some cx"
  have l: "ledger_ok r" and d: "distinct (teamIds r)" using assms(1) by (simp_all add: room_ok_def room_wf_def)
  have xin: "x \<in> set (teamIds r)" by (rule cellOf_keys [OF l cx])
  then obtain s where s: "scoreOf r x = Some s" using scoreOf_of_id by blast
  have d1: "distinct (teamIds (addRowDelta t f 4 (addScore t 4 r)))"
    using d by (simp add: teamIds_addScore)
  show "cellOf (refreshRowScores (addRowDelta t f 4 (addScore t 4 r))) x =
             Some ((if x = t then addField f 4 cx else cx)
                     \<lparr>row_score := the (scoreOf (addScore t 4 r) x)\<rparr>)"
  proof (cases "x = t")
    case True
    then show ?thesis
      using cx s
      by (simp add: cellOf_refreshRowScores [OF d1] cellOf_addRowDelta scoreOf_addScore)
  next
    case False
    then show ?thesis
      using cx s
      by (simp add: cellOf_refreshRowScores [OF d1] cellOf_addRowDelta scoreOf_addScore)
  qed
qed

lemma clearTossupEndTimeout_pair:
  "clearTossupEndTimeout rs =
     ((fst rs)\<lparr>tossupEndTimeout := None\<rparr>,
      (snd rs)\<lparr>pending := (case tossupEndTimeout (fst rs) of None \<Rightarrow> pending (snd rs)
                     | Some h \<Rightarrow> AList.delete h (pending (snd rs)))\<rparr>)"
  by (cases rs) (simp add: clearTossupEndTimeout_eq split: option.splits)

lemma markCorrect_result:
  assumes "map_of (rooms w) c = Some r" and "hostSocketId r = sid"
    and "buzz r = Locked ws wn t wat (Some i)" and "t \<noteq> []" and "map_of (teams r) t = Some tm"
  shows "handle now sid (HostMarkAnswer c True) w =
           (Done,
            w\<lparr>rooms := AList.update c
                 (resetTimerFull bonus False now
                    (clearBuzz
                       ((refreshRowScores (addRowDelta t Field_tu 4 (addScore t 4 r)))
                          \<lparr>tossupEndTimeout := None,
                           phase := bonus_reading, activeBonusTeamId := Some t\<rparr>)))
                 (rooms w),
              sched := (sched w)\<lparr>pending :=
                 (case tossupEndTimeout r of None \<Rightarrow> pending (sched w)
                  | Some h \<Rightarrow> AList.delete h (pending (sched w)))\<rparr>\<rparr>,
            [broadcast
               (resetTimerFull bonus False now
                    (clearBuzz
                       ((refreshRowScores (addRowDelta t Field_tu 4 (addScore t 4 r)))
                          \<lparr>tossupEndTimeout := None,
                           phase := bonus_reading, activeBonusTeamId := Some t\<rparr>))) now])"
  using assms(3-5)
  by (simp add: withHostRoom_host [OF assms(1,2)] on_host_mark_answer_def Let_def split_beta
      clearTossupEndTimeout_pair refreshRowScores_fields addRowDelta_fields addScore_fields
      split: option.splits)

lemma otherTeamId_exists:
  assumes "room_ok r"
  shows "\<exists>other. otherTeamId r t = Some other \<and> other \<noteq> t \<and> other \<in> set (teamIds r)"
proof -
  from assms have len: "2 \<le> length (teamIds r)" and d: "distinct (teamIds r)"
    and ne: "[] \<notin> set (teamIds r)"
    by (simp_all add: room_ok_def room_wf_def)
  have "\<exists>x \<in> set (teamIds r). x \<noteq> t"
  proof (rule ccontr)
    assume "\<not> (\<exists>x \<in> set (teamIds r). x \<noteq> t)"
    then have "set (teamIds r) \<subseteq> {t}" by auto
    then have "card (set (teamIds r)) \<le> 1"
      using card_mono [of "{t}" "set (teamIds r)"] by simp
    with d len show False by (simp add: distinct_card)
  qed
  then obtain y where y: "find (\<lambda>x. x \<noteq> t) (teamIds r) = Some y"
    by (cases "find (\<lambda>x. x \<noteq> t) (teamIds r)") (auto simp: find_None_iff)
  then have "y \<noteq> t" "y \<in> set (teamIds r)"
    by (auto simp: find_Some_iff)
  moreover from this ne have "y \<noteq> []" by auto
  ultimately show ?thesis using y by (simp add: otherTeamId_def teamIds_def)
qed

lemma otherTeamId_frame [simp]:
  "otherTeamId (clearBuzz r) = otherTeamId r"
  "otherTeamId (r\<lparr>tossupLockedTeams := l\<rparr>) = otherTeamId r"
  by (simp_all add: otherTeamId_def clearBuzz_def fun_eq_iff)

lemma markIncorrect_interrupt_result:
  assumes "map_of (rooms w) c = Some r" and "hostSocketId r = sid"
    and "buzz r = Locked ws wn t wat (Some True)" and "t \<noteq> []" and "map_of (teams r) t = Some tm"
    and "otherTeamId r t = Some other" and "map_of (teams r) other = Some om"
  shows "handle now sid (HostMarkAnswer c False) w =
           (Done,
            w\<lparr>rooms := AList.update c
                 (resetTimerFull tossup False now
                    ((refreshRowScores (addRowDelta other Field_p 4 (addScore other 4
                         (clearBuzz (r\<lparr>tossupLockedTeams := setAdd t (tossupLockedTeams r)\<rparr>)))))
                       \<lparr>tossupEndTimeout := None, phase := tossup_reading\<rparr>))
                 (rooms w),
              sched := (sched w)\<lparr>pending :=
                 (case tossupEndTimeout r of None \<Rightarrow> pending (sched w)
                  | Some h \<Rightarrow> AList.delete h (pending (sched w)))\<rparr>\<rparr>,
            [broadcast
               (resetTimerFull tossup False now
                    ((refreshRowScores (addRowDelta other Field_p 4 (addScore other 4
                         (clearBuzz (r\<lparr>tossupLockedTeams := setAdd t (tossupLockedTeams r)\<rparr>)))))
                       \<lparr>tossupEndTimeout := None, phase := tossup_reading\<rparr>)) now])"
proof -
  have o: "map_of (teams (clearBuzz (r\<lparr>tossupLockedTeams := setAdd t (tossupLockedTeams r)\<rparr>))) other
             = Some om"
    using assms(7) by (simp add: clearBuzz_def)
  have te: "tossupEndTimeout (refreshRowScores (addRowDelta other Field_p 4 (addScore other 4
                (clearBuzz (r\<lparr>tossupLockedTeams := setAdd t (tossupLockedTeams r)\<rparr>)))))
             = tossupEndTimeout r"
    by (simp add: refreshRowScores_fields addRowDelta_fields addScore_fields clearBuzz_def)
  show ?thesis
    using assms(3-6) o
    by (simp add: withHostRoom_host [OF assms(1,2)] on_host_mark_answer_def Let_def split_beta
        clearTossupEndTimeout_pair te split: option.splits)
qed

lemma markIncorrect_plain_result:
  assumes "map_of (rooms w) c = Some r" and "hostSocketId r = sid"
    and "buzz r = Locked ws wn t wat (Some False)" and "t \<noteq> []" and "map_of (teams r) t = Some tm"
  shows "handle now sid (HostMarkAnswer c False) w =
           (Done,
            w\<lparr>rooms := AList.update c
                 (r\<lparr>tossupLockedTeams := setAdd t (tossupLockedTeams r),
                    buzz := Unlocked, phase := tossup_live,
                    timer := \<lparr>mode = tossup, running = True,
                               remainingMs = tossupSeconds (settings r) * 1000,
                               endsAtMs = now + tossupSeconds (settings r) * 1000\<rparr>,
                    tossupEndTimeout := Some (nextTimeoutId (sched w))\<rparr>)
                 (rooms w),
              sched := (sched w)\<lparr>pending :=
                 (case tossupEndTimeout r of None \<Rightarrow> pending (sched w)
                  | Some h \<Rightarrow> AList.delete h (pending (sched w)))
                 @ [(nextTimeoutId (sched w), code r,
                     now + tossupSeconds (settings r) * 1000 + 15)],
                 nextTimeoutId := nextTimeoutId (sched w) + 1\<rparr>\<rparr>,
            [broadcast
               (r\<lparr>tossupLockedTeams := setAdd t (tossupLockedTeams r),
                    buzz := Unlocked, phase := tossup_live,
                    timer := \<lparr>mode = tossup, running = True,
                               remainingMs = tossupSeconds (settings r) * 1000,
                               endsAtMs = now + tossupSeconds (settings r) * 1000\<rparr>,
                    tossupEndTimeout := Some (nextTimeoutId (sched w))\<rparr>) now])"
  using assms(3-5)
  by (simp add: withHostRoom_host [OF assms(1,2)] on_host_mark_answer_def Let_def split_beta
      scheduleTossupEnd_eq clearBuzz_def resetTimerFull_def setTimer_def split: option.splits)

lemma setAdd_member: "x \<in> set (setAdd x xs)"
  by (simp add: setAdd_def)

text \<open>
  Rounding to a double leaves an integer below \<open>2\<^sup>5\<^sup>3\<close> as it is, so that the sum of two such
  non-negative integers is exact.
\<close>

lemma roundHalfEven_of_int: "roundHalfEven (of_int m) = m"
  by (simp add: roundHalfEven_def)

lemma bitlen_le:
  assumes "0 < a" and "a < 2 ^ n"
  shows "bitlen a \<le> int n"
proof (rule ccontr)
  assume "\<not> bitlen a \<le> int n"
  then have "int n \<le> bitlen a - 1" by simp
  then have "n \<le> nat (bitlen a - 1)" by simp
  then have "(2::int) ^ n \<le> 2 ^ nat (bitlen a - 1)" by (simp add: power_increasing)
  also have "\<dots> \<le> a" using bitlen_bounds [OF assms(1)] by simp
  finally show False using assms(2) by simp
qed

lemma ilog2_of_int_le:
  assumes "0 < a" and "a < 2 ^ 53"
  shows "ilog2 (of_int a) \<le> 52"
proof -
  have "bitlen a \<le> 53" using bitlen_le [OF assms] by simp
  moreover have "bitlen 1 = 1" by (simp add: bitlen_alt_def)
  ultimately show ?thesis
    by (simp add: ilog2_def Let_def quotient_of_int [unfolded Rat.of_int_def] )
qed

lemma pow2_nonpos: "k \<le> 0 \<Longrightarrow> pow2 k = 1 / 2 ^ nat (- k)"
  by (simp add: pow2_def)

lemma roundToDouble_of_int:
  assumes "0 < a" and "a < 2 ^ 53"
  shows "roundToDouble (of_int a) = of_int a"
proof -
  define j where "j = nat (52 - ilog2 (of_int a))"
  have e: "ilog2 (of_int a) - 52 \<le> 0" using ilog2_of_int_le [OF assms] by simp
  have u: "pow2 (ilog2 (of_int a) - 52) = 1 / 2 ^ j"
    unfolding j_def using pow2_nonpos [OF e] by (simp add: algebra_simps)
  have "(of_int a :: rat) * 2 ^ j = of_int (a * 2 ^ j)" by simp
  then have r: "roundHalfEven (of_int a * 2 ^ j) = a * 2 ^ j"
    by (simp only: roundHalfEven_of_int)
  have pos: "(0::rat) < of_int a" using assms(1) by simp
  have "roundToDouble (of_int a) = of_int (roundHalfEven (of_int a * 2 ^ j)) / 2 ^ j"
    using pos by (simp add: roundToDouble_def Let_def u)
  also have "\<dots> = of_int (a * 2 ^ j) / 2 ^ j" by (simp only: r)
  also have "\<dots> = of_int a" by simp
  finally show ?thesis .
qed

lemma jsAdd_exact:
  assumes "0 \<le> a" and "0 \<le> b" and "a + b < 2 ^ 53"
  shows "jsAdd (of_int a) (of_int b) = of_int (a + b)"
proof (cases "a + b = 0")
  case True
  then show ?thesis using assms by (simp add: jsAdd_def roundToDouble_def)
next
  case False
  then have "0 < a + b" using assms by simp
  from roundToDouble_of_int [OF this assms(3)] show ?thesis by (simp add: jsAdd_def)
qed

lemma withRoom_known:
  "map_of (rooms w) c = Some r \<Longrightarrow>
     withRoom c sid w body =
       (case body c (r, sched w) of
          (out, (r', s'), es) \<Rightarrow>
            (out, w\<lparr>rooms := AList.update c r' (rooms w), sched := s'\<rparr>, es))"
  by (simp add: withRoom_def requireRoom_def split: prod.splits)

lemma dropped_withRoom_known:
  assumes "withRoom c sid w body = (Dropped, w', es)"
    and "map_of (rooms w) c = Some r"
    and "\<And>rs rs' es'. body c rs = (Dropped, rs', es') \<Longrightarrow> rs' = rs \<and> es' = n"
  shows "w' = w \<and> es = n"
proof -
  obtain out r' s' es' where b: "body c (r, sched w) = (out, (r', s'), es')"
    by (metis prod.exhaust)
  from assms(1) b have o: "out = Dropped" "es = es'"
     and w': "w' = w\<lparr>rooms := AList.update c r' (rooms w), sched := s'\<rparr>"
    by (simp_all add: withRoom_known [OF assms(2)])
  from assms(3) [of "(r, sched w)" "(r', s')" es'] b o have "r' = r" "s' = sched w" "es' = n"
    by simp_all
  then show ?thesis using w' o by (simp add: world_put_back [OF assms(2)])
qed

lemma dropped_withHostRoom_host:
  assumes "withHostRoom c sid w body = (Dropped, w', es)"
    and "map_of (rooms w) c = Some r" and "hostSocketId r = sid"
    and "\<And>rs rs' es'. body rs = (Dropped, rs', es') \<Longrightarrow> rs' = rs \<and> es' = []"
  shows "w' = w \<and> es = []"
proof -
  obtain out r' s' es' where b: "body (r, sched w) = (out, (r', s'), es')"
    by (metis prod.exhaust)
  from assms(1) b have o: "out = Dropped" "es = es'"
     and w': "w' = w\<lparr>rooms := AList.update c r' (rooms w), sched := s'\<rparr>"
    by (simp_all add: withHostRoom_host [OF assms(2,3)])
  from assms(4) [of "(r, sched w)" "(r', s')" es'] b o have "r' = r" "s' = sched w" "es' = []"
    by simp_all
  then show ?thesis using w' o by (simp add: world_put_back [OF assms(2)])
qed

lemma dropped_host_command:
  assumes "withHostRoom c sid w body = (Dropped, w', es)"
    and "\<And>rs rs' es'. body rs = (Dropped, rs', es') \<Longrightarrow> rs' = rs \<and> es' = []"
  shows "w' = w \<and>
         es = (case map_of (rooms w) c of
                 None \<Rightarrow> [EmitErrorMsg sid ''Room not found.'']
               | Some r \<Rightarrow> if hostSocketId r = sid then []
                           else [EmitErrorMsg sid ''Host only.''])"
proof (cases "map_of (rooms w) c")
  case None
  then show ?thesis using assms(1) by (simp add: withHostRoom_unknown)
next
  case (Some r)
  show ?thesis
  proof (cases "hostSocketId r = sid")
    case True
    from dropped_withHostRoom_host [OF assms(1) Some True assms(2)]
    show ?thesis using Some True by simp
  next
    case False
    then show ?thesis using assms(1) Some by (simp add: withHostRoom_not_host)
  qed
qed

lemma dropped_room_command:
  assumes "withRoom c sid w body = (Dropped, w', es)"
    and "\<And>rs rs' es'. body c rs = (Dropped, rs', es') \<Longrightarrow> rs' = rs \<and> es' = n"
  shows "w' = w \<and>
         es = (case map_of (rooms w) c of
                 None \<Rightarrow> [EmitErrorMsg sid ''Room not found.'']
               | Some r \<Rightarrow> n)"
proof (cases "map_of (rooms w) c")
  case None
  then show ?thesis using assms(1) by (simp add: withRoom_unknown)
next
  case (Some r)
  from dropped_withRoom_known [OF assms(1) Some assms(2)]
  show ?thesis using Some by simp
qed

lemma join_without_team:
  assumes "map_of (rooms w) c = Some r"
    and "tid = None \<or> tid = Some [] \<or> (\<exists>i. tid = Some i \<and> map_of (teams r) i = None)"
  shows "handle now sid (JoinRoom c nm tid False) w =
           (Dropped, w, [SocketJoin sid c, EmitErrorMsg sid ''Choose a team before joining.''])"
  using assms(2)
  by (auto simp: withRoom_known [OF assms(1)] on_join_room_def Let_def world_put_back [OF assms(1)])

lemma room_ok_lock_clear: "room_ok r \<Longrightarrow> room_ok (clearBuzz (r\<lparr>tossupLockedTeams := l\<rparr>))"
  by (simp add: room_ok_def room_wf_lock_clear) (simp add: clock_ok_def clearBuzz_def)

lemma grows_refl: "grows r r"
  by (simp add: grows_def)

lemma frame_prims [simp]:
  "tossupLockedTeams (clearBuzz r) = tossupLockedTeams r"
  "tossupLockedTeams (resetTimerFull m b now r) = tossupLockedTeams r"
  "hostSocketId (clearBuzz r) = hostSocketId r"
  "hostSocketId (resetTimerFull m b now r) = hostSocketId r"
  "hostSocketId (stopTimer now r) = hostSocketId r"
  by (simp_all add: clearBuzz_def resetTimerFull_def setTimer_def stopTimer_def Let_def)

lemma grows_set_room_name: "grows (fst rs) (fst (fst (snd (on_host_set_room_name rn now rs))))"
  by (simp add: grows_def on_host_set_room_name_def Let_def)

lemma grows_set_team_name: "grows (fst rs) (fst (fst (snd (on_host_set_team_name tid nm now rs))))"
  by (simp add: grows_def on_host_set_team_name_def Let_def split: option.splits)

lemma grows_join: "grows (fst rs) (fst (fst (snd (on_join_room sid nm tid sp now c rs))))"
  by (simp add: grows_def on_join_room_def Let_def)

lemma grows_done_tossup: "grows (fst rs) (fst (fst (snd (on_host_done_reading_tossup now rs))))"
  by (simp add: grows_def on_host_done_reading_tossup_def Let_def split_beta fst_sched)

lemma grows_buzz: "grows (fst rs) (fst (fst (snd (on_buzz sid now rs))))"
  by (simp add: grows_def on_buzz_def Let_def split_beta fst_sched split: option.splits)

lemma grows_clear_buzz: "grows (fst rs) (fst (fst (snd (on_host_clear_buzz now rs))))"
  by (simp add: grows_def on_host_clear_buzz_def Let_def split_beta fst_sched)

lemma grows_set_interrupt:
  "grows (fst rs) (fst (fst (snd (on_host_set_interrupt_choice i now rs))))"
  by (simp add: grows_def on_host_set_interrupt_choice_def Let_def split: buzz.splits)

lemma grows_mark_answer: "grows (fst rs) (fst (fst (snd (on_host_mark_answer correct now rs))))"
  by (auto simp: grows_def on_host_mark_answer_def Let_def split_beta fst_sched setAdd_def
      refreshRowScores_fields addRowDelta_fields addScore_fields
      split: buzz.splits option.splits)

lemma grows_done_bonus: "grows (fst rs) (fst (fst (snd (on_host_done_reading_bonus now rs))))"
  by (simp add: grows_def on_host_done_reading_bonus_def Let_def)

lemma withRoom_room:
  "map_of (rooms (fst (snd (withRoom cc sid w body)))) c =
     (if cc = c
      then map_option (\<lambda>r. fst (fst (snd (body c (r, sched w))))) (map_of (rooms w) c)
      else map_of (rooms w) c)"
  by (cases "map_of (rooms w) cc")
     (auto simp: withRoom_def requireRoom_def update_conv' Let_def split_beta)

lemma withRoom_grows:
  assumes "map_of (rooms w) c = Some r"
    and "\<And>c' rs. grows (fst rs) (fst (fst (snd (body c' rs))))"
  shows "\<exists>r'. map_of (rooms (fst (snd (withRoom cc sid w body)))) c = Some r' \<and> grows r r'"
  using assms(1) assms(2) [of "(r, sched w)" c]
  by (auto simp: withRoom_room grows_refl)

lemma withHostRoom_grows:
  assumes "map_of (rooms w) c = Some r"
    and "\<And>rs. grows (fst rs) (fst (fst (snd (body rs))))"
  shows "\<exists>r'. map_of (rooms (fst (snd (withHostRoom cc sid w body)))) c = Some r' \<and> grows r r'"
  unfolding withHostRoom_def
proof (rule withRoom_grows [OF assms(1)])
  fix c' rs
  show "grows (fst rs) (fst (fst (snd (case requireHost (fst rs) sid of
           (False, es) \<Rightarrow> (Dropped, rs, es)
         | (True, es) \<Rightarrow> (case body rs of (out, rs', es') \<Rightarrow> (out, rs', es @ es'))))))"
    using assms(2) [of rs] by (simp add: requireHost_def grows_refl split_beta)
qed

lemma withHostRoom_other:
  "cc \<noteq> c \<Longrightarrow>
     map_of (rooms (fst (snd (withHostRoom cc sid w body)))) c = map_of (rooms w) c"
  by (simp add: withHostRoom_def withRoom_room)

lemma disconnectLoop_room:
  assumes "\<exists>r'. map_of (rooms w) c = Some r' \<and> grows r r'"
    and "\<forall>e \<in> set es. code (snd e) = fst e \<and> (fst e = c \<longrightarrow> grows r (snd e))"
    and "hostSocketId r \<noteq> sid"
  shows "\<exists>r'. map_of (rooms (fst (disconnectLoop sid now es w))) c = Some r' \<and> grows r r'"
  using assms(1,2)
proof (induction es arbitrary: w)
  case Nil
  then show ?case by simp
next
  case (Cons e es)
  from Cons.prems(2) have rest: "\<forall>e \<in> set es. code (snd e) = fst e \<and> (fst e = c \<longrightarrow> grows r (snd e))"
    and e: "code (snd e) = fst e" "fst e = c \<longrightarrow> grows r (snd e)"
    by simp_all
  show ?case
  proof (cases "map_of (players (snd e)) sid")
    case None
    then show ?thesis using Cons.IH [OF Cons.prems(1) rest] by simp
  next
    case (Some y)
    let ?r = "(snd e)\<lparr>players := AList.delete sid (players (snd e))\<rparr>"
    show ?thesis
    proof (cases "hostSocketId (snd e) = sid")
      case True
      with e(2) assms(3) have ne: "fst e \<noteq> c" by (auto simp: grows_def)
      let ?w' = "w\<lparr>rooms := AList.delete (code (fst (clearTossupEndTimeout (?r, sched w)))) (rooms w),
                    sched := snd (clearTossupEndTimeout (?r, sched w))\<rparr>"
      have "code (fst (clearTossupEndTimeout (?r, sched w))) = fst e"
        using e(1) by (simp add: fst_clearTossupEndTimeout)
      then have "map_of (rooms ?w') c = map_of (rooms w) c"
        using ne by (simp add: delete_conv')
      with Cons.prems(1) have "\<exists>r'. map_of (rooms ?w') c = Some r' \<and> grows r r'" by simp
      from Cons.IH [OF this rest] show ?thesis
        using Some True by (simp add: Let_def split_beta)
    next
      case False
      let ?w' = "w\<lparr>rooms := AList.update (fst e) ?r (rooms w)\<rparr>"
      have "\<exists>r'. map_of (rooms ?w') c = Some r' \<and> grows r r'"
      proof (cases "fst e = c")
        case True
        with e(2) have "grows r ?r" by (simp add: grows_def)
        then show ?thesis using True by (simp add: update_conv')
      next
        case F: False
        then show ?thesis using Cons.prems(1) by (simp add: update_conv')
      qed
      from Cons.IH [OF this rest] show ?thesis
        using Some False by (simp add: Let_def split_beta)
    qed
  qed
qed

lemma disconnect_room:
  assumes "world_ok w" and "map_of (rooms w) c = Some r" and "hostSocketId r \<noteq> sid"
  shows "\<exists>r'. map_of (rooms (fst (snd (on_disconnect sid now w)))) c = Some r' \<and> grows r r'"
proof -
  have 1: "\<exists>r'. map_of (rooms w) c = Some r' \<and> grows r r'"
    using assms(2) by (simp add: grows_refl)
  have 2: "\<forall>e \<in> set (rooms w). code (snd e) = fst e \<and> (fst e = c \<longrightarrow> grows r (snd e))"
  proof
    fix e
    assume e: "e \<in> set (rooms w)"
    then have k: "code (snd e) = fst e" using assms(1) by (simp add: world_ok_def)
    have "fst e = c \<longrightarrow> snd e = r"
    proof
      assume "fst e = c"
      then have "(c, snd e) \<in> set (rooms w)" using e by (cases e) simp
      moreover have "distinct (map fst (rooms w))" using assms(1) by (simp add: world_ok_def)
      ultimately have "map_of (rooms w) c = Some (snd e)" by simp
      with assms(2) show "snd e = r" by simp
    qed
    with k show "code (snd e) = fst e \<and> (fst e = c \<longrightarrow> grows r (snd e))"
      by (auto simp: grows_refl)
  qed
  from disconnectLoop_room [OF 1 2 assms(3)] show ?thesis
    by (simp add: on_disconnect_def split_beta)
qed

lemma fire_room:
  assumes "map_of (rooms w) c = Some r"
  shows "\<exists>r'. map_of (rooms (fst (fireTimeout h now w))) c = Some r' \<and> grows r r'"
proof -
  have cb: "\<exists>r'. map_of (rooms (fst (tossupEndCallback d now (w\<lparr>sched := s\<rparr>)))) c = Some r'
              \<and> grows r r'" for d s
    using assms by (auto simp: callback_cases Let_def update_conv' grows_def split: option.splits)
  show ?thesis
    using assms cb by (auto simp: fireTimeout_def grows_refl split: option.splits prod.splits)
qed

lemma create_room_other:
  "genCode rnd \<noteq> c \<Longrightarrow>
     map_of (rooms (fst (snd (handle now sid (CreateRoom hn rn n rnd ids) w)))) c
       = map_of (rooms w) c"
  by (simp add: on_create_room_def Let_def update_conv')

lemma step_keeps_lockout:
  assumes "world_ok w" and "map_of (rooms w) c = Some r"
    and "\<not> endsLockout c (hostSocketId r) e"
  shows "\<exists>r'. map_of (rooms (fst (step e w))) c = Some r' \<and> grows r r'"
proof (cases e)
  case (Timeout now h)
  then show ?thesis using fire_room [OF assms(2)] by simp
next
  case (Command now sid cmd)
  show ?thesis
  proof (cases cmd)
    case (CreateRoom hn rn n rnd ids)
    then show ?thesis
      using assms(2,3) Command by (simp add: create_room_other grows_refl del: handle.simps)
  next
    case (HostSetRoomName cc rn)
    then show ?thesis
      using Command withHostRoom_grows [OF assms(2), of "on_host_set_room_name rn now" cc sid]
      by (simp add: grows_set_room_name)
  next
    case (HostSetTeamName cc tid nm)
    then show ?thesis
      using Command withHostRoom_grows [OF assms(2), of "on_host_set_team_name tid nm now" cc sid]
      by (simp add: grows_set_team_name)
  next
    case (JoinRoom cc nm tid sp)
    then show ?thesis
      using Command withRoom_grows [OF assms(2), of "on_join_room sid nm tid sp now" cc sid]
      by (simp add: grows_join)
  next
    case SetTeam
    then show ?thesis using Command assms(2) by (simp add: grows_refl)
  next
    case (HostStartTossupReading cc)
    then show ?thesis
      using Command assms(2,3) by (simp add: withHostRoom_other grows_refl)
  next
    case (HostDoneReadingTossup cc)
    then show ?thesis
      using Command withHostRoom_grows [OF assms(2), of "on_host_done_reading_tossup now" cc sid]
      by (simp add: grows_done_tossup)
  next
    case (Buzz cc)
    then show ?thesis
      using Command withRoom_grows [OF assms(2), of "\<lambda>c'. on_buzz sid now" cc sid]
      by (simp add: grows_buzz)
  next
    case (HostClearBuzz cc)
    then show ?thesis
      using Command withHostRoom_grows [OF assms(2), of "on_host_clear_buzz now" cc sid]
      by (simp add: grows_clear_buzz)
  next
    case (HostSetInterruptChoice cc i)
    then show ?thesis
      using Command withHostRoom_grows [OF assms(2), of "on_host_set_interrupt_choice i now" cc sid]
      by (simp add: grows_set_interrupt)
  next
    case (HostMarkAnswer cc correct)
    then show ?thesis
      using Command withHostRoom_grows [OF assms(2), of "on_host_mark_answer correct now" cc sid]
      by (simp add: grows_mark_answer)
  next
    case (HostDoneReadingBonus cc)
    then show ?thesis
      using Command withHostRoom_grows [OF assms(2), of "on_host_done_reading_bonus now" cc sid]
      by (simp add: grows_done_bonus)
  next
    case (HostAwardBonus cc pts)
    then show ?thesis
      using Command assms(2,3) by (simp add: withHostRoom_other grows_refl)
  next
    case (HostSkipBonus cc)
    then show ?thesis
      using Command assms(2,3) by (simp add: withHostRoom_other grows_refl)
  next
    case Disconnect
    then show ?thesis
      using Command assms(3) disconnect_room [OF assms(1,2), of sid now] by simp
  next
    case NoPayload
    then show ?thesis using Command assms(2) by (simp add: grows_refl)
  qed
qed

lemma grows_trans: "grows r r' \<Longrightarrow> grows r' r'' \<Longrightarrow> grows r r''"
  by (auto simp: grows_def)

lemma run_append: "run (evs @ evs') w = run evs' (run evs w)"
  by (simp add: run_def)

lemma world_ok_run_from: "world_ok w \<Longrightarrow> list_all env_ok evs \<Longrightarrow> world_ok (run evs w)"
proof (induction evs rule: rev_induct)
  case Nil
  then show ?case by (simp add: run_def)
next
  case (snoc e evs)
  then show ?case by (simp add: run_snoc world_ok_step)
qed

lemma run_keeps_lockout:
  assumes "world_ok w" and "list_all env_ok evs" and "map_of (rooms w) c = Some r"
    and "list_all (\<lambda>e. \<not> endsLockout c (hostSocketId r) e) evs"
  shows "\<exists>r'. map_of (rooms (run evs w)) c = Some r' \<and> grows r r'"
  using assms(2,4)
proof (induction evs rule: rev_induct)
  case Nil
  then show ?case using assms(3) by (simp add: run_def grows_refl)
next
  case (snoc e evs)
  then obtain r1 where r1: "map_of (rooms (run evs w)) c = Some r1" "grows r r1" by auto
  have ok: "world_ok (run evs w)" using assms(1) snoc.prems(1) by (simp add: world_ok_run_from)
  have "\<not> endsLockout c (hostSocketId r1) e" using snoc.prems(2) r1(2) by (simp add: grows_def)
  from step_keeps_lockout [OF ok r1(1) this]
  obtain r2 where "map_of (rooms (fst (step e (run evs w)))) c = Some r2" "grows r1 r2" by blast
  with r1(2) show ?case by (auto simp: run_snoc intro: grows_trans)
qed

lemma buzz_done:
  assumes "on_buzz sid now rs = (Done, rs', es)"
  shows "buzz (fst rs) = Unlocked
         \<and> (phase (fst rs) = tossup_reading \<or> phase (fst rs) = tossup_live)
         \<and> (\<exists>pl tid. map_of (players (fst rs)) sid = Some pl \<and> teamId pl = Some tid
               \<and> \<not> isHost pl \<and> \<not> isSpectator pl
               \<and> tid \<notin> set (tossupLockedTeams (fst rs))
               \<and> buzz (fst rs') = Locked sid (name pl) tid now None)"
  using assms
  by (auto simp: on_buzz_def Let_def split_beta fst_sched split: option.splits if_splits)

lemma handle_buzz_done:
  assumes "handle now sid (Buzz cc) w = (Done, w', es)"
  shows "\<exists>r r'. map_of (rooms w) cc = Some r \<and> buzz r = Unlocked
           \<and> (phase r = tossup_reading \<or> phase r = tossup_live)
           \<and> map_of (rooms w') cc = Some r'
           \<and> (\<exists>pl tid. map_of (players r) sid = Some pl \<and> teamId pl = Some tid
                 \<and> \<not> isHost pl \<and> \<not> isSpectator pl
                 \<and> tid \<notin> set (tossupLockedTeams r)
                 \<and> buzz r' = Locked sid (name pl) tid now None)"
proof (cases "map_of (rooms w) cc")
  case None
  then show ?thesis using assms by (simp add: withRoom_def requireRoom_def)
next
  case (Some r)
  obtain out r' s' es' where b: "on_buzz sid now (r, sched w) = (out, (r', s'), es')"
    by (metis prod.exhaust)
  with assms Some have o: "out = Done"
    and w': "w' = w\<lparr>rooms := AList.update cc r' (rooms w), sched := s'\<rparr>"
    by (simp_all add: withRoom_def requireRoom_def)
  from buzz_done [OF b [unfolded o]] Some w' show ?thesis
    by (simp add: update_conv')
qed

lemma handle_buzz_conflict:
  assumes "map_of (rooms w) cc = Some r"
    and "buzz r \<noteq> Unlocked
         \<or> (\<exists>pl tid. map_of (players r) sid = Some pl \<and> teamId pl = Some tid
                \<and> tid \<in> set (tossupLockedTeams r))"
  shows "handle now sid (Buzz cc) w = (Dropped, w, [])"
proof -
  have "on_buzz sid now (r, sched w) = (Dropped, (r, sched w), [])"
    using assms(2) by (auto simp: on_buzz_def split: option.splits)
  then show ?thesis
    using assms(1) by (simp add: withRoom_def requireRoom_def world_put_back)
qed

section \<open>The claims\<close>

text \<open>
  C10. In every room the server can reach, a timer that is marked running but whose deadline
  has passed (\<open>endsAtMs \<le> now\<close>) is reported by \<^verbatim>\<open>computeTimerSnapshot\<close> as not
  running, with zero remaining time and a zero deadline; the remaining time it reports is
  never negative; and this is the timer that \<^verbatim>\<open>publicState\<close> sends to the subscribers,
  next to the unchanged phase. The snapshot is a function of the room and the clock alone:
  it returns a fresh object and assigns to nothing.
\<close>

theorem timer_snapshot_after_deadline:
  assumes "list_all env_ok evs" and "map_of (rooms (run evs init_world)) c = Some r"
  shows "(running (timer r) \<and> endsAtMs (timer r) \<le> now \<longrightarrow>
            computeTimerSnapshot r now =
              \<lparr>mode = mode (timer r), running = False, remainingMs = 0, endsAtMs = 0\<rparr>)
         \<and> 0 \<le> remainingMs (computeTimerSnapshot r now)
         \<and> pub_timer (publicState r now) = computeTimerSnapshot r now
         \<and> pub_phase (publicState r now) = phase r"
proof -
  have "0 \<le> remainingMs (timer r)"
    using room_ok_run(1) [OF assms] by (simp add: room_ok_def room_wf_def)
  then show ?thesis
    by (simp add: computeTimerSnapshot_def publicState_def Let_def)
qed

theorem timer_snapshot_after_deadline_witness:
  "list_all env_ok trace_live
   \<and> map_of (rooms (run trace_live init_world)) ''AAAAAA''
       = Some (snd (hd (rooms (run trace_live init_world))))
   \<and> running (timer (snd (hd (rooms (run trace_live init_world)))))
   \<and> endsAtMs (timer (snd (hd (rooms (run trace_live init_world))))) \<le> 6000
   \<and> phase (snd (hd (rooms (run trace_live init_world)))) = tossup_live
   \<and> pub_timer (publicState (snd (hd (rooms (run trace_live init_world)))) 6000)
       = \<lparr>mode = tossup, running = False, remainingMs = 0, endsAtMs = 0\<rparr>"
proof -
  have e: "list_all env_ok trace_live" by code_simp
  have m: "map_of (rooms (run trace_live init_world)) ''AAAAAA''
             = Some (snd (hd (rooms (run trace_live init_world))))" by code_simp
  have r: "running (timer (snd (hd (rooms (run trace_live init_world)))))"
          "endsAtMs (timer (snd (hd (rooms (run trace_live init_world))))) \<le> 6000"
          "phase (snd (hd (rooms (run trace_live init_world)))) = tossup_live"
          "mode (timer (snd (hd (rooms (run trace_live init_world))))) = tossup"
    by code_simp+
  show ?thesis
    using e m r timer_snapshot_after_deadline [OF e m, of 6000] by simp
qed

text \<open>
  C1. Whenever the toss-up end callback runs, it looks the room up again by its code and
  tests the room as it then is: the room is in the registry, its phase is
  \<open>tossup_live\<close>, the remaining time it computes from the deadline
  (\<open>max 0 (endsAtMs - now)\<close>) is zero, and the buzz is not locked. If all four hold, the
  phase becomes \<open>tossup_closed\<close>, the timer is stopped at zero, the buzz is cleared and the
  state is broadcast; otherwise the world is returned as it was and nothing is sent. A
  pending timeout that is due runs exactly this callback. In particular a room whose buzz is
  locked is left as it is by the callback and by the firing of any timeout.
\<close>

theorem tossup_end_revalidates:
  "(case map_of (rooms w) c of
      None \<Rightarrow> tossupEndCallback c now w = (w, [])
    | Some r \<Rightarrow>
        if phase r = tossup_live \<and> max 0 (endsAtMs (timer r) - now) = 0 \<and> buzz r = Unlocked
        then let r' = r\<lparr>phase := tossup_closed,
                        timer := \<lparr>mode = mode (timer r), running = False, remainingMs = 0,
                                   endsAtMs = 0\<rparr>,
                        buzz := Unlocked\<rparr>
             in tossupEndCallback c now w =
                  (w\<lparr>rooms := AList.update c r' (rooms w)\<rparr>, [broadcast r' now])
        else tossupEndCallback c now w = (w, []))
   \<and> (\<forall>due. map_of (pending (sched w)) h = Some (c, due) \<and> due \<le> now \<longrightarrow>
         fireTimeout h now w =
           tossupEndCallback c now
             (w\<lparr>sched := (sched w)\<lparr>pending := AList.delete h (pending (sched w))\<rparr>\<rparr>))
   \<and> (\<forall>r. map_of (rooms w) c = Some r \<and> buzz r \<noteq> Unlocked \<longrightarrow>
         tossupEndCallback c now w = (w, []) \<and>
         map_of (rooms (fst (fireTimeout h now w))) c = Some r)"
proof (intro conjI allI impI)
  show "case map_of (rooms w) c of
      None \<Rightarrow> tossupEndCallback c now w = (w, [])
    | Some r \<Rightarrow>
        if phase r = tossup_live \<and> max 0 (endsAtMs (timer r) - now) = 0 \<and> buzz r = Unlocked
        then let r' = r\<lparr>phase := tossup_closed,
                        timer := \<lparr>mode = mode (timer r), running = False, remainingMs = 0,
                                   endsAtMs = 0\<rparr>,
                        buzz := Unlocked\<rparr>
             in tossupEndCallback c now w =
                  (w\<lparr>rooms := AList.update c r' (rooms w)\<rparr>, [broadcast r' now])
        else tossupEndCallback c now w = (w, [])"
    by (simp add: callback_cases Let_def split: option.splits)
next
  fix due
  assume "map_of (pending (sched w)) h = Some (c, due) \<and> due \<le> now"
  then show "fireTimeout h now w =
           tossupEndCallback c now
             (w\<lparr>sched := (sched w)\<lparr>pending := AList.delete h (pending (sched w))\<rparr>\<rparr>)"
    by (simp add: fireTimeout_def)
next
  fix r
  assume a: "map_of (rooms w) c = Some r \<and> buzz r \<noteq> Unlocked"
  then show "tossupEndCallback c now w = (w, [])"
    using callback_locked(2) [of w c r c now] by simp
  from a have "map_of (rooms (w\<lparr>sched := s\<rparr>)) c = Some r" for s by simp
  then have "map_of (rooms (fst (tossupEndCallback d now (w\<lparr>sched := s\<rparr>)))) c = Some r" for d s
    using a by (intro callback_locked(1)) simp_all
  then show "map_of (rooms (fst (fireTimeout h now w))) c = Some r"
    using a by (simp add: fireTimeout_def split: option.splits prod.splits)
qed

theorem tossup_end_revalidates_witness:
  "map_of (pending (sched world_live)) 0 = Some (''AAAAAA'', 6015)
   \<and> map phase (map snd (rooms world_live)) = [tossup_live]
   \<and> map phase (map snd (rooms (fst (fireTimeout 0 6015 world_live)))) = [tossup_closed]
   \<and> map phase (map snd (rooms (fst (fireTimeout 0 6015
          (fst (step (Command 3000 ''a'' (Buzz ''AAAAAA'')) world_live)))))) = [tossup_live]"
proof -
  have p: "map_of (pending (sched world_live)) 0 = Some (''AAAAAA'', 6015) \<and> (6015::int) \<le> 6015"
    by code_simp
  have c: "tossupEndCallback ''AAAAAA'' 6015
             (world_live\<lparr>sched := (sched world_live)\<lparr>pending := AList.delete 0 (pending (sched world_live))\<rparr>\<rparr>)
           = fireTimeout 0 6015 world_live"
    using tossup_end_revalidates [where w = world_live and c = "''AAAAAA''" and now = 6015 and h = 0] p
    by simp
  have "map phase (map snd (rooms (fst (tossupEndCallback ''AAAAAA'' 6015
             (world_live\<lparr>sched := (sched world_live)\<lparr>pending := AList.delete 0 (pending (sched world_live))\<rparr>\<rparr>)))))
         = [tossup_closed]"
    by code_simp
  moreover have "map phase (map snd (rooms world_live)) = [tossup_live]" by code_simp
  moreover have "map phase (map snd (rooms (fst (fireTimeout 0 6015
          (fst (step (Command 3000 ''a'' (Buzz ''AAAAAA'')) world_live)))))) = [tossup_live]"
    by code_simp
  ultimately show ?thesis using p c by simp
qed

text \<open>
  C7. A create-room command always succeeds, and the room it stores and broadcasts has,
  for a team count that is the integer \<open>n\<close>, exactly \<open>min 8 (max 2 n)\<close> teams, and two teams
  when the count is not a finite number (any other finite count is first rounded to the
  nearest integer). The \<open>i\<close>-th team is called Team followed by the \<open>i\<close>-th capital letter and
  has score 0. The room is in phase \<open>lobby\<close>, its buzz is unlocked, no team is locked out,
  the ledger is empty, and the toss-up timer holds \<open>tossupSeconds * 1000 = 5000\<close> ms and is
  not running. The ids that \<^verbatim>\<open>nanoid\<close> hands out for the teams are taken to be distinct.
\<close>

theorem create_room_initial_state:
  assumes "distinct (map ids [0..<8])"
  shows "\<exists>r. handle now sid (CreateRoom hostName rn numTeams rnd ids) w =
               (Done, w\<lparr>rooms := AList.update (genCode rnd) r (rooms w)\<rparr>,
                [SocketJoin sid (genCode rnd), EmitRoomCreated sid (genCode rnd), broadcast r now])
             \<and> code r = genCode rnd \<and> hostSocketId r = sid
             \<and> (\<forall>n::int. numTeams = Finite (of_int n) \<longrightarrow> int (length (teams r)) = min 8 (max 2 n))
             \<and> (\<forall>x. numTeams = Finite x \<longrightarrow> int (length (teams r)) = min 8 (max 2 (mathRound x)))
             \<and> (numTeams = NotFinite \<longrightarrow> length (teams r) = 2)
             \<and> map snd (teams r) =
                 map (\<lambda>i. \<lparr>team_id = ids i, team_name = ''Team '' @ [char_of (65 + i)], score = 0\<rparr>)
                     [0..<length (teams r)]
             \<and> map fst (teams r) = map ids [0..<length (teams r)]
             \<and> phase r = lobby \<and> buzz r = Unlocked \<and> tossupLockedTeams r = []
             \<and> rows (match r) = [] \<and> activeBonusTeamId r = None
             \<and> timer r = \<lparr>mode = tossup, running = False, remainingMs = 5000, endsAtMs = 0\<rparr>
             \<and> tossupSeconds (settings r) * 1000 = 5000"
proof -
  define k where "k = nat (case numTeams of Finite x \<Rightarrow> min 8 (max 2 (mathRound x)) | NotFinite \<Rightarrow> 2)"
  have k: "2 \<le> k" "k \<le> 8" unfolding k_def by (rule teamCount_bounds)+
  have d: "distinct (map ids [0..<k])" using assms k(2) by (rule distinct_prefix)
  note tl = teamsLoop_distinct [OF d]
  define c where "c = genCode rnd"
  define r where "r =
     \<lparr>code = c,
      roomName = (let t = take 40 rn in if t = [] then ''Room '' @ c else t),
      hostSocketId = sid,
      settings = \<lparr>tossupSeconds = 5, bonusSeconds = 20\<rparr>,
      teams = teamsLoop ids k,
      players = AList.update sid
         \<lparr>socketId = sid,
          name = take 24 (case hostName of None \<Rightarrow> ''Host''
                          | Some h \<Rightarrow> if h = [] then ''Host'' else h),
          teamId = None, isHost = True, isSpectator = False\<rparr> [],
      phase = lobby, activeBonusTeamId = None, tossupLockedTeams = [],
      buzz = Unlocked,
      timer = \<lparr>mode = tossup, running = False, remainingMs = 5 * 1000, endsAtMs = 0\<rparr>,
      tossupEndTimeout = None,
      match = \<lparr>tossupNumber = 0, rows = []\<rparr>\<rparr>"
  have len: "length (teams r) = k" by (simp add: r_def tl)
  have h: "handle now sid (CreateRoom hostName rn numTeams rnd ids) w =
               (Done, w\<lparr>rooms := AList.update (genCode rnd) r (rooms w)\<rparr>,
                [SocketJoin sid (genCode rnd), EmitRoomCreated sid (genCode rnd), broadcast r now])"
    by (simp add: on_create_room_def r_def k_def c_def Let_def)
  have n1: "\<forall>n::int. numTeams = Finite (of_int n) \<longrightarrow> int (length (teams r)) = min 8 (max 2 n)"
    unfolding len by (auto simp: k_def mathRound_of_int)
  have n2: "\<forall>x. numTeams = Finite x \<longrightarrow> int (length (teams r)) = min 8 (max 2 (mathRound x))"
    unfolding len by (auto simp: k_def)
  have n3: "numTeams = NotFinite \<longrightarrow> length (teams r) = 2"
    unfolding len by (auto simp: k_def)
  have t1: "map snd (teams r) =
                 map (\<lambda>i. \<lparr>team_id = ids i, team_name = ''Team '' @ [char_of (65 + i)], score = 0\<rparr>)
                     [0..<length (teams r)]"
    unfolding len by (simp add: r_def tl comp_def)
  have t2: "map fst (teams r) = map ids [0..<length (teams r)]"
    unfolding len by (simp add: r_def tl comp_def)
  have rest: "code r = genCode rnd" "hostSocketId r = sid"
     "phase r = lobby" "buzz r = Unlocked" "tossupLockedTeams r = []"
     "rows (match r) = []" "activeBonusTeamId r = None"
     "timer r = \<lparr>mode = tossup, running = False, remainingMs = 5000, endsAtMs = 0\<rparr>"
     "tossupSeconds (settings r) * 1000 = 5000"
    by (simp_all add: r_def c_def)
  show ?thesis
    using h n1 n2 n3 t1 t2 rest by (intro exI [of _ r]) simp
qed

theorem create_room_initial_state_witness:
  "distinct (map ids0 [0..<8])
   \<and> map (\<lambda>r. (map (\<lambda>t. (team_name t, score t)) (map snd (teams r)), phase r, buzz r,
               tossupLockedTeams r, rows (match r), timer r))
        (map snd (rooms (fst (snd (handle 0 ''h'' (CreateRoom None '''' (Finite 3) rnd0 ids0) init_world)))))
     = [([(''Team A'', 0), (''Team B'', 0), (''Team C'', 0)], lobby, Unlocked, [], [],
         \<lparr>mode = tossup, running = False, remainingMs = 5000, endsAtMs = 0\<rparr>)]"
proof -
  have d: "distinct (map ids0 [0..<8])" by code_simp
  obtain r where r: "handle 0 ''h'' (CreateRoom None '''' (Finite 3) rnd0 ids0) init_world =
               (Done, init_world\<lparr>rooms := AList.update (genCode rnd0) r (rooms init_world)\<rparr>,
                [SocketJoin ''h'' (genCode rnd0), EmitRoomCreated ''h'' (genCode rnd0), broadcast r 0])"
      and n: "\<forall>n::int. Finite 3 = Finite (of_int n) \<longrightarrow> int (length (teams r)) = min 8 (max 2 n)"
      and t: "map snd (teams r) =
                 map (\<lambda>i. \<lparr>team_id = ids0 i, team_name = ''Team '' @ [char_of (65 + i)], score = 0\<rparr>)
                     [0..<length (teams r)]"
      and rest: "phase r = lobby" "buzz r = Unlocked" "tossupLockedTeams r = []"
        "rows (match r) = []"
        "timer r = \<lparr>mode = tossup, running = False, remainingMs = 5000, endsAtMs = 0\<rparr>"
    using create_room_initial_state [OF d, of 0 "''h''" None "''''" "Finite 3" rnd0 init_world]
    by blast
  from n have "int (length (teams r)) = min 8 (max 2 3)"
    by (metis of_int_numeral)
  then have l: "length (teams r) = 3" by simp
  have u: "[0..<3] = [0, 1, 2]" by (simp add: upt_rec)
  have names: "map (\<lambda>t. (team_name t, score t)) (map snd (teams r))
                 = [(''Team A'', 0), (''Team B'', 0), (''Team C'', 0)]"
  proof -
    have "''Team '' @ [char_of (65 + (0::nat))] = ''Team A''"
         "''Team '' @ [char_of (65 + (1::nat))] = ''Team B''"
         "''Team '' @ [char_of (65 + (2::nat))] = ''Team C''"
      by code_simp+
    then show ?thesis unfolding t l u by simp
  qed
  have w: "fst (snd (handle 0 ''h'' (CreateRoom None '''' (Finite 3) rnd0 ids0) init_world))
             = init_world\<lparr>rooms := AList.update (genCode rnd0) r (rooms init_world)\<rparr>"
    by (simp only: r fst_conv snd_conv)
  show ?thesis
    unfolding w using d names rest by (simp add: init_world_def)
qed

text \<open>
  C8, as stated, fails: \<^verbatim>\<open>genCode\<close> never looks at the registry and nothing regenerates
  a code. With a room stored under AAAAAA, a second create-room whose six draws are again 0 is
  given the same code, and the first host's room is replaced by the new one.
\<close>

theorem create_room_code_collision:
  "map (\<lambda>r. (code r, hostSocketId r)) (map snd (rooms world_one_room)) = [(''AAAAAA'', ''h'')]
   \<and> genCode rnd0 \<in> set (map fst (rooms world_one_room))
   \<and> map (\<lambda>r. (code r, hostSocketId r))
        (map snd (rooms (fst (snd (handle 50 ''g'' (CreateRoom None ''Other'' (Finite 2) rnd0 ids0)
                                    world_one_room)))))
     = [(''AAAAAA'', ''g'')]"
  by code_simp

text \<open>
  C8, amended. Create-room stores the new room under the code that \<^verbatim>\<open>genCode\<close> draws,
  whatever the registry holds: every entry under another code is kept as it is. So when
  the drawn code differs from the code of every room in the registry, no existing entry is
  replaced or destroyed; when it equals the code of a live room, that entry is the new room.
\<close>

theorem create_room_keeps_other_codes:
  assumes "handle now sid (CreateRoom hn rn n rnd ids) w = (out, w', es)"
  shows "(\<exists>r. map_of (rooms w') (genCode rnd) = Some r \<and> code r = genCode rnd
              \<and> hostSocketId r = sid)
         \<and> (\<forall>c. c \<noteq> genCode rnd \<longrightarrow> map_of (rooms w') c = map_of (rooms w) c)
         \<and> (genCode rnd \<notin> set (map fst (rooms w)) \<longrightarrow>
              (\<forall>c r. map_of (rooms w) c = Some r \<longrightarrow> map_of (rooms w') c = Some r))"
proof -
  have w': "w' = fst (snd (handle now sid (CreateRoom hn rn n rnd ids) w))"
    by (simp only: assms fst_conv snd_conv)
  define r where "r = the (map_of (rooms w') (genCode rnd))"
  have r: "rooms w' = AList.update (genCode rnd) r (rooms w)"
      "code r = genCode rnd" "hostSocketId r = sid"
    unfolding r_def w' by (rule create_room_rooms)+
  have 1: "map_of (rooms w') (genCode rnd) = Some r" by (simp add: r(1) update_conv')
  have 2: "\<forall>c. c \<noteq> genCode rnd \<longrightarrow> map_of (rooms w') c = map_of (rooms w) c"
    by (simp add: r(1) update_conv')
  have 3: "genCode rnd \<notin> set (map fst (rooms w)) \<longrightarrow>
              (\<forall>c r. map_of (rooms w) c = Some r \<longrightarrow> map_of (rooms w') c = Some r)"
  proof (intro impI allI)
    fix c x
    assume "genCode rnd \<notin> set (map fst (rooms w))" and "map_of (rooms w) c = Some x"
    then have "c \<noteq> genCode rnd" by (auto dest: map_of_Some_key)
    with 2 \<open>map_of (rooms w) c = Some x\<close> show "map_of (rooms w') c = Some x" by simp
  qed
  from 1 2 3 r(2,3) show ?thesis by blast
qed

theorem create_room_keeps_other_codes_witness:
  "genCode rnd1 \<notin> set (map fst (rooms world_one_room))
   \<and> map_of (rooms world_one_room) ''AAAAAA'' = Some (snd (hd (rooms world_one_room)))
   \<and> map_of (rooms (fst (snd (handle 50 ''g'' (CreateRoom None ''Other'' (Finite 2) rnd1 ids0)
                                world_one_room)))) ''AAAAAA''
       = Some (snd (hd (rooms world_one_room)))
   \<and> map fst (rooms (fst (snd (handle 50 ''g'' (CreateRoom None ''Other'' (Finite 2) rnd1 ids0)
                                world_one_room))))
       = [''AAAAAA'', ''BBBBBB'']"
proof -
  obtain out w' es where h:
    "handle 50 ''g'' (CreateRoom None ''Other'' (Finite 2) rnd1 ids0) world_one_room = (out, w', es)"
    by (metis prod.exhaust)
  have n: "genCode rnd1 \<notin> set (map fst (rooms world_one_room))" by code_simp
  have m: "map_of (rooms world_one_room) ''AAAAAA'' = Some (snd (hd (rooms world_one_room)))"
    by code_simp
  have "map_of (rooms w') ''AAAAAA'' = Some (snd (hd (rooms world_one_room)))"
    using create_room_keeps_other_codes [OF h] n m by blast
  moreover have "w' = fst (snd (handle 50 ''g'' (CreateRoom None ''Other'' (Finite 2) rnd1 ids0)
                                world_one_room))"
    by (simp only: h fst_conv snd_conv)
  moreover have "map fst (rooms (fst (snd (handle 50 ''g''
                     (CreateRoom None ''Other'' (Finite 2) rnd1 ids0) world_one_room))))
       = [''AAAAAA'', ''BBBBBB'']"
    by code_simp
  ultimately show ?thesis using n m by simp
qed

text \<open>
  C9 does not hold of the code. The comment above the \<^verbatim>\<open>set_team\<close> handler says that
  there is no switching after join, and that handler does nothing; but \<^verbatim>\<open>join_room\<close>
  does not look whether the connection is in the room already and overwrites its player
  entry. Here the connection \<open>a\<close>, a member of the first team, sends join-room again with
  the id of the second team: the command is carried out and the team recorded for \<open>a\<close>
  changes, while the set-team command in between changed nothing.
\<close>

theorem rejoin_switches_team:
  "map (\<lambda>r. map_option teamId (map_of (players r) ''a'')) (map snd (rooms world_joined))
     = [Some (Some ''team0'')]
   \<and> handle 20 ''a'' SetTeam world_joined = (Done, world_joined, [])
   \<and> fst (handle 30 ''a'' (JoinRoom ''AAAAAA'' ''Al'' (Some ''team1'') False) world_joined) = Done
   \<and> map (\<lambda>r. map_option teamId (map_of (players r) ''a''))
        (map snd (rooms (fst (snd (handle 30 ''a'' (JoinRoom ''AAAAAA'' ''Al'' (Some ''team1'') False)
                                    world_joined)))))
     = [Some (Some ''team1'')]"
  by code_simp




text \<open>
  C6, as stated, fails: most guards return without sending anything. Here the second
  player buzzes while the buzz is locked; the command is dropped and no error notice goes
  out.
\<close>

theorem buzz_conflict_is_silent:
  "map (\<lambda>r. buzz r \<noteq> Unlocked) (map snd (rooms world_buzzed_live)) = [True]
   \<and> handle 3100 ''b'' (Buzz ''AAAAAA'') world_buzzed_live = (Dropped, world_buzzed_live, [])"
  by code_simp

text \<open>
  C6, amended. A command that a guard rejects leaves the whole world (registry, rooms and
  timer queue) as it was and broadcasts no state, and what it sends is this, to the
  originating connection only: the notice Room not found if the room code is unknown; the
  notice Host only if the command is for the host and comes from another connection;
  after subscribing the connection to the room, the notice Choose a team before joining if
  it is a join; and nothing in every other case (a command that is illegal in the current
  phase, an empty name, an unknown team in a renaming, bonus points out of range, a buzz
  that loses to a lock or comes from a locked-out team or an unknown player, a verdict or an
  interrupt choice without a locked buzz). A join of a known room that is no spectator's and
  names no team of the room is so rejected, with the notice. A message that comes without a
  payload is not rejected by a guard: its handler throws before it has looked at the room or
  sent anything.
\<close>

theorem rejected_command_notice:
  "(handle now sid cmd w = (Dropped, w', es) \<longrightarrow>
      w' = w \<and>
      es = (case targetCode cmd of
              None \<Rightarrow> []
            | Some c \<Rightarrow>
                (case map_of (rooms w) c of
                   None \<Rightarrow> [EmitErrorMsg sid ''Room not found.'']
                 | Some r \<Rightarrow>
                     if hostOnly cmd
                     then (if hostSocketId r = sid then [] else [EmitErrorMsg sid ''Host only.''])
                     else (case cmd of
                             JoinRoom c' nm tid sp \<Rightarrow>
                               [SocketJoin sid c,
                                EmitErrorMsg sid ''Choose a team before joining.'']
                           | _ \<Rightarrow> []))))
   \<and> (\<forall>c r nm tid.
        map_of (rooms w) c = Some r \<and>
        (tid = None \<or> tid = Some [] \<or> (\<exists>i. tid = Some i \<and> map_of (teams r) i = None)) \<longrightarrow>
        handle now sid (JoinRoom c nm tid False) w =
          (Dropped, w, [SocketJoin sid c, EmitErrorMsg sid ''Choose a team before joining.'']))
   \<and> handle now sid NoPayload w = (Threw, w, [])"
proof (intro conjI impI allI)
  assume a: "handle now sid cmd w = (Dropped, w', es)"
  let ?n = "case targetCode cmd of
              None \<Rightarrow> []
            | Some c \<Rightarrow>
                (case map_of (rooms w) c of
                   None \<Rightarrow> [EmitErrorMsg sid ''Room not found.'']
                 | Some r \<Rightarrow>
                     if hostOnly cmd
                     then (if hostSocketId r = sid then [] else [EmitErrorMsg sid ''Host only.''])
                     else (case cmd of
                             JoinRoom c' nm tid sp \<Rightarrow>
                               [SocketJoin sid c,
                                EmitErrorMsg sid ''Choose a team before joining.'']
                           | _ \<Rightarrow> []))"
  have "w' = w \<and> es = ?n"
  proof (cases cmd)
    case (CreateRoom hn rn n rnd ids)
    then show ?thesis using a by (simp add: on_create_room_def Let_def)
  next
    case (HostSetRoomName c rn)
    then show ?thesis
      using dropped_host_command [of c sid w "on_host_set_room_name rn now" w' es] a
      by (simp add: dropped_set_room_name cong: option.case_cong)
  next
    case (HostSetTeamName c tid nm)
    then show ?thesis
      using dropped_host_command [of c sid w "on_host_set_team_name tid nm now" w' es] a
      by (simp add: dropped_set_team_name cong: option.case_cong)
  next
    case (JoinRoom c nm tid sp)
    then show ?thesis
      using dropped_room_command [of c sid w "on_join_room sid nm tid sp now" w' es
          "[SocketJoin sid c, EmitErrorMsg sid ''Choose a team before joining.'']"] a
      by (simp add: dropped_join cong: option.case_cong)
  next
    case SetTeam
    then show ?thesis using a by simp
  next
    case (HostStartTossupReading c)
    then show ?thesis
      using dropped_host_command [of c sid w "on_host_start_tossup_reading now" w' es] a
      by (simp add: dropped_start cong: option.case_cong)
  next
    case (HostDoneReadingTossup c)
    then show ?thesis
      using dropped_host_command [of c sid w "on_host_done_reading_tossup now" w' es] a
      by (simp add: dropped_done_tossup cong: option.case_cong)
  next
    case (Buzz c)
    then show ?thesis
      using dropped_room_command [of c sid w "\<lambda>c'. on_buzz sid now" w' es "[]"] a
      by (simp add: dropped_buzz cong: option.case_cong)
  next
    case (HostClearBuzz c)
    then show ?thesis
      using dropped_host_command [of c sid w "on_host_clear_buzz now" w' es] a
      by (simp add: dropped_clear_buzz cong: option.case_cong)
  next
    case (HostSetInterruptChoice c i)
    then show ?thesis
      using dropped_host_command [of c sid w "on_host_set_interrupt_choice i now" w' es] a
      by (simp add: dropped_set_interrupt cong: option.case_cong)
  next
    case (HostMarkAnswer c correct)
    then show ?thesis
      using dropped_host_command [of c sid w "on_host_mark_answer correct now" w' es] a
      by (simp add: dropped_mark_answer cong: option.case_cong)
  next
    case (HostDoneReadingBonus c)
    then show ?thesis
      using dropped_host_command [of c sid w "on_host_done_reading_bonus now" w' es] a
      by (simp add: dropped_done_bonus cong: option.case_cong)
  next
    case (HostAwardBonus c pts)
    then show ?thesis
      using dropped_host_command [of c sid w "on_host_award_bonus pts now" w' es] a
      by (simp add: dropped_award_bonus cong: option.case_cong)
  next
    case (HostSkipBonus c)
    then show ?thesis
      using dropped_host_command [of c sid w "on_host_skip_bonus now" w' es] a
      by (simp add: dropped_skip_bonus cong: option.case_cong)
  next
    case Disconnect
    then show ?thesis using a by (simp add: on_disconnect_def split: prod.splits)
  next
    case NoPayload
    then show ?thesis using a by simp
  qed
  then show "w' = w" and "es = ?n" by simp_all
next
  fix c r nm tid
  assume "map_of (rooms w) c = Some r \<and>
        (tid = None \<or> tid = Some [] \<or> (\<exists>i. tid = Some i \<and> map_of (teams r) i = None))"
  then show "handle now sid (JoinRoom c nm tid False) w =
          (Dropped, w, [SocketJoin sid c, EmitErrorMsg sid ''Choose a team before joining.''])"
    using join_without_team by blast
next
  show "handle now sid NoPayload w = (Threw, w, [])" by simp
qed

theorem rejected_command_notice_witness:
  "handle 3100 ''b'' (HostSkipBonus ''AAAAAA'') world_buzzed_live
     = (Dropped, world_buzzed_live, [EmitErrorMsg ''b'' ''Host only.''])
   \<and> map_of (rooms world_buzzed_live) ''AAAAAA'' = Some (snd (hd (rooms world_buzzed_live)))
   \<and> map_of (teams (snd (hd (rooms world_buzzed_live)))) ''nobody'' = None
   \<and> handle 3200 ''c'' (JoinRoom ''AAAAAA'' ''Cy'' (Some ''nobody'') False) world_buzzed_live
       = (Dropped, world_buzzed_live,
          [SocketJoin ''c'' ''AAAAAA'', EmitErrorMsg ''c'' ''Choose a team before joining.''])"
proof -
  have d: "fst (handle 3100 ''b'' (HostSkipBonus ''AAAAAA'') world_buzzed_live) = Dropped"
    by code_simp
  have m: "map_of (rooms world_buzzed_live) ''AAAAAA''
             = Some (snd (hd (rooms world_buzzed_live)))"
    by code_simp
  have nh: "hostSocketId (snd (hd (rooms world_buzzed_live))) \<noteq> ''b''"
    by code_simp
  have nt: "map_of (teams (snd (hd (rooms world_buzzed_live)))) ''nobody'' = None"
    by code_simp
  obtain w' es where h:
    "handle 3100 ''b'' (HostSkipBonus ''AAAAAA'') world_buzzed_live = (Dropped, w', es)"
    using d by (metis prod.collapse)
  from rejected_command_notice [of 3100 "''b''" "HostSkipBonus ''AAAAAA''" world_buzzed_live w' es]
    h m nh
  have "w' = world_buzzed_live" and "es = [EmitErrorMsg ''b'' ''Host only.'']"
    by simp_all
  then have one: "handle 3100 ''b'' (HostSkipBonus ''AAAAAA'') world_buzzed_live
     = (Dropped, world_buzzed_live, [EmitErrorMsg ''b'' ''Host only.''])"
    using h by simp
  from rejected_command_notice [of 3200 "''c''" "JoinRoom ''AAAAAA'' ''Cy'' (Some ''nobody'') False"
      world_buzzed_live world_buzzed_live "[]"] m nt
  have two: "handle 3200 ''c'' (JoinRoom ''AAAAAA'' ''Cy'' (Some ''nobody'') False) world_buzzed_live
       = (Dropped, world_buzzed_live,
          [SocketJoin ''c'' ''AAAAAA'', EmitErrorMsg ''c'' ''Choose a team before joining.''])"
    by blast
  from one m nt two show ?thesis by simp
qed

text \<open>
  C4, as stated, fails in two ways. Where the ledger has no row (the host may go from the
  lobby straight to the live toss-up), a correct answer raises the score by 4 but
  \<^verbatim>\<open>addRowDelta\<close> and \<^verbatim>\<open>refreshRowScores\<close> find no current row and record nothing.
  And the score is a double, so that \<^verbatim>\<open>team.score += 4\<close> is rounded: a team with the
  score 4 + 2.3 (a toss-up and a bonus of 2.3 points) that answers the next toss-up gets a
  score that is not the old score plus 4.
\<close>

theorem mark_correct_without_row:
  "map (\<lambda>r. (buzz r \<noteq> Unlocked, rows (match r))) (map snd (rooms world_classified_no))
     = [(True, [])]
   \<and> map (\<lambda>r. (map (\<lambda>t. score (snd t)) (teams r), phase r, rows (match r)))
        (map snd (rooms (fst (snd (handle 4000 ''h'' (HostMarkAnswer ''AAAAAA'' True)
                                    world_classified_no)))))
     = [([4, 0], bonus_reading, [])]
   \<and> map (\<lambda>r. (buzz r \<noteq> Unlocked, map (\<lambda>t. score (snd t)) (teams r)))
        (map snd (rooms world_fraction_no))
     = [(True, [7093169413108531 / 1125899906842624, 0])]
   \<and> map (\<lambda>r. (map (\<lambda>t. score (snd t)) (teams r), phase r))
        (map snd (rooms (fst (snd (handle 9000 ''h'' (HostMarkAnswer ''AAAAAA'' True)
                                    world_fraction_no)))))
     = [([2899192260119757 / 281474976710656, 0], bonus_reading)]
   \<and> (2899192260119757 / 281474976710656 :: rat) \<noteq> 7093169413108531 / 1125899906842624 + 4"
  by code_simp

text \<open>
  C4, amended. In every reachable room with a locked buzz whose interrupt choice is set,
  when the host marks the answer correct the command is carried out and broadcast: the
  buzzing team's score becomes the double nearest to the old score plus 4, which is the old
  score plus 4 if the old score is an integer (from 0 to \<open>2 ^ 53 - 5\<close>), and no other score
  changes; any pending end
  callback of the room is cancelled; the buzz is cleared; the phase is \<open>bonus_reading\<close>
  with the buzzing team as active bonus team; the timer is reset to \<open>bonusSeconds\<close>, paused.
  If the ledger has a current row, 4 is added in the same way to the buzzing team's \<open>tu\<close>
  delta in it and every cell of the row gets the running score of its team; the earlier rows and the row
  numbers stay. If the ledger is empty, it stays empty and nothing is recorded.
\<close>

theorem mark_correct_awards_tossup:
  assumes "list_all env_ok evs"
    and "map_of (rooms (run evs init_world)) c = Some r"
    and "hostSocketId r = sid"
    and "buzz r = Locked ws wn t wat (Some i)"
  shows "\<exists>r' s'.
           handle now sid (HostMarkAnswer c True) (run evs init_world) =
             (Done,
              (run evs init_world)\<lparr>rooms := AList.update c r' (rooms (run evs init_world)),
                                     sched := s'\<rparr>,
              [broadcast r' now])
         \<and> (\<exists>s0. scoreOf r t = Some s0 \<and> scoreOf r' t = Some (jsAdd s0 4))
         \<and> (\<forall>n. scoreOf r t = Some (of_int n) \<and> 0 \<le> n \<and> n + 4 < 2 ^ 53
               \<longrightarrow> scoreOf r' t = Some (of_int (n + 4)))
         \<and> (\<forall>x. x \<noteq> t \<longrightarrow> scoreOf r' x = scoreOf r x)
         \<and> phase r' = bonus_reading \<and> activeBonusTeamId r' = Some t \<and> buzz r' = Unlocked
         \<and> timer r' = \<lparr>mode = bonus, running = False,
                        remainingMs = bonusSeconds (settings r) * 1000, endsAtMs = 0\<rparr>
         \<and> tossupEndTimeout r' = None
         \<and> s' = (sched (run evs init_world))\<lparr>pending :=
                   (case tossupEndTimeout r of
                      None \<Rightarrow> pending (sched (run evs init_world))
                    | Some h \<Rightarrow> AList.delete h (pending (sched (run evs init_world))))\<rparr>
         \<and> tossupLockedTeams r' = tossupLockedTeams r \<and> players r' = players r
         \<and> (rows (match r) = [] \<longrightarrow> match r' = match r)
         \<and> (rows (match r) \<noteq> [] \<longrightarrow> (\<exists>c0. cellOf r t = Some c0))
         \<and> (\<forall>x cx. cellOf r x = Some cx \<longrightarrow>
               cellOf r' x = Some ((if x = t then cx\<lparr>tu_delta := jsAdd (tu_delta cx) 4\<rparr> else cx)
                                     \<lparr>row_score := the (scoreOf r' x)\<rparr>))
         \<and> (\<forall>cx n. cellOf r t = Some cx \<and> tu_delta cx = of_int n \<and> 0 \<le> n \<and> n + 4 < 2 ^ 53
               \<longrightarrow> map_option tu_delta (cellOf r' t) = Some (of_int (n + 4)))
         \<and> butlast (rows (match r')) = butlast (rows (match r))
         \<and> map num (rows (match r')) = map num (rows (match r))"
proof -
  let ?w = "run evs init_world"
  have ok: "room_ok r" by (rule room_ok_run(1) [OF assms(1,2)])
  then have t: "t \<noteq> []" "t \<in> set (teamIds r)" and l: "ledger_ok r"
    using assms(4) by (simp_all add: room_ok_def room_wf_def)
  obtain tm where tm: "map_of (teams r) t = Some tm" using team_of_id [OF t(2)] by blast
  define r3 where "r3 = refreshRowScores (addRowDelta t Field_tu 4 (addScore t 4 r))"
  define r' where "r' = resetTimerFull bonus False now
                    (clearBuzz (r3\<lparr>tossupEndTimeout := None,
                                   phase := bonus_reading, activeBonusTeamId := Some t\<rparr>))"
  define s' where "s' = (sched ?w)\<lparr>pending :=
                   (case tossupEndTimeout r of
                      None \<Rightarrow> pending (sched ?w)
                    | Some h \<Rightarrow> AList.delete h (pending (sched ?w)))\<rparr>"
  have h: "handle now sid (HostMarkAnswer c True) ?w =
             (Done, ?w\<lparr>rooms := AList.update c r' (rooms ?w), sched := s'\<rparr>,
              [broadcast r' now])"
    unfolding r'_def r3_def s'_def by (rule markCorrect_result [OF assms(2,3,4) t(1) tm])
  have sc: "scoreOf r' = scoreOf (addScore t 4 r)"
    by (simp add: r'_def r3_def)
  have s1: "\<exists>s0. scoreOf r t = Some s0 \<and> scoreOf r' t = Some (jsAdd s0 4)"
    using tm by (simp add: sc scoreOf_addScore) (simp add: scoreOf_def)
  have s1': "\<forall>n. scoreOf r t = Some (of_int n) \<and> 0 \<le> n \<and> n + 4 < 2 ^ 53
               \<longrightarrow> scoreOf r' t = Some (of_int (n + 4))"
    using jsAdd_exact [of _ 4] by (simp add: sc scoreOf_addScore)
  have s2: "\<forall>x. x \<noteq> t \<longrightarrow> scoreOf r' x = scoreOf r x"
    by (simp add: sc scoreOf_addScore)
  have f: "phase r' = bonus_reading" "activeBonusTeamId r' = Some t" "buzz r' = Unlocked"
     "timer r' = \<lparr>mode = bonus, running = False,
                        remainingMs = bonusSeconds (settings r) * 1000, endsAtMs = 0\<rparr>"
     "tossupEndTimeout r' = None"
     "tossupLockedTeams r' = tossupLockedTeams r" "players r' = players r"
    by (simp_all add: r'_def r3_def resetTimerFull_def setTimer_def clearBuzz_def Let_def
        refreshRowScores_fields addRowDelta_fields addScore_fields)
  have m: "match r' = match r3"
    by (simp add: r'_def resetTimerFull_def setTimer_def clearBuzz_def Let_def)
  have m': "cellOf r' = cellOf r3"
    by (simp add: r'_def)
  have e: "rows (match r) = [] \<longrightarrow> match r' = match r"
    unfolding m r3_def by (rule scored_ledger(1) [OF ok])
  have ne: "rows (match r) \<noteq> [] \<longrightarrow> (\<exists>c0. cellOf r t = Some c0)"
    using cellOf_of_id [OF l _ t(2)] by blast
  have cells: "\<forall>x cx. cellOf r x = Some cx \<longrightarrow>
               cellOf r' x = Some ((if x = t then cx\<lparr>tu_delta := jsAdd (tu_delta cx) 4\<rparr> else cx)
                                     \<lparr>row_score := the (scoreOf r' x)\<rparr>)"
  proof (intro allI impI)
    fix x cx
    assume "cellOf r x = Some cx"
    from scored_ledger(2) [OF ok this, of t Field_tu]
    show "cellOf r' x = Some ((if x = t then cx\<lparr>tu_delta := jsAdd (tu_delta cx) 4\<rparr> else cx)
                                     \<lparr>row_score := the (scoreOf r' x)\<rparr>)"
      by (simp add: m' sc r3_def addField_def)
  qed
  have cells': "\<forall>cx n. cellOf r t = Some cx \<and> tu_delta cx = of_int n \<and> 0 \<le> n \<and> n + 4 < 2 ^ 53
               \<longrightarrow> map_option tu_delta (cellOf r' t) = Some (of_int (n + 4))"
    using cells jsAdd_exact [of _ 4] by simp
  have shape: "butlast (rows (match r')) = butlast (rows (match r))"
     "map num (rows (match r')) = map num (rows (match r))"
    by (simp_all add: m r3_def rows_shape_refreshRowScores rows_shape_addRowDelta addScore_fields)
  show ?thesis
    apply (rule exI [of _ r'])
    apply (rule exI [of _ s'])
    using h s1 s1' s2 f e ne cells cells' shape
    apply (simp add: s'_def)
    done
qed

theorem mark_correct_awards_tossup_witness:
  "list_all env_ok trace_row_no
   \<and> phase (the (map_of (rooms (fst (snd (handle 4000 ''h'' (HostMarkAnswer ''AAAAAA'' True)
                 (run trace_row_no init_world))))) ''AAAAAA'')) = bonus_reading
   \<and> activeBonusTeamId (the (map_of (rooms (fst (snd (handle 4000 ''h''
                 (HostMarkAnswer ''AAAAAA'' True) (run trace_row_no init_world))))) ''AAAAAA''))
       = Some ''team0''
   \<and> scoreOf (the (map_of (rooms (fst (snd (handle 4000 ''h'' (HostMarkAnswer ''AAAAAA'' True)
                 (run trace_row_no init_world))))) ''AAAAAA'')) ''team0'' = Some 4
   \<and> cellOf (the (map_of (rooms (fst (snd (handle 4000 ''h'' (HostMarkAnswer ''AAAAAA'' True)
                 (run trace_row_no init_world))))) ''AAAAAA'')) ''team0''
       = Some \<lparr>p_delta = 0, tu_delta = 4, b_delta = 0, row_score = 4\<rparr>"
proof -
  let ?w = "run trace_row_no init_world"
  let ?R = "snd (hd (rooms ?w))"
  have e: "list_all env_ok trace_row_no" by code_simp
  have m: "map_of (rooms ?w) ''AAAAAA'' = Some ?R" by code_simp
  have hs: "hostSocketId ?R = ''h''" by code_simp
  have b: "buzz ?R = Locked ''a'' ''Al'' ''team0'' 3000 (Some False)" by code_simp
  have s0: "scoreOf ?R ''team0'' = Some 0" by code_simp
  have c0: "cellOf ?R ''team0'' = Some \<lparr>p_delta = 0, tu_delta = 0, b_delta = 0, row_score = 0\<rparr>"
    by code_simp
  from mark_correct_awards_tossup [OF e m hs b, of 4000]
  obtain r' s' where
    h: "handle 4000 ''h'' (HostMarkAnswer ''AAAAAA'' True) ?w =
          (Done, ?w\<lparr>rooms := AList.update ''AAAAAA'' r' (rooms ?w), sched := s'\<rparr>,
           [broadcast r' 4000])"
    and sc: "\<forall>n. scoreOf ?R ''team0'' = Some (of_int n) \<and> 0 \<le> n \<and> n + 4 < 2 ^ 53
               \<longrightarrow> scoreOf r' ''team0'' = Some (of_int (n + 4))"
    and ph: "phase r' = bonus_reading" "activeBonusTeamId r' = Some ''team0''"
    and cells: "\<forall>x cx. cellOf ?R x = Some cx \<longrightarrow>
               cellOf r' x = Some ((if x = ''team0'' then cx\<lparr>tu_delta := jsAdd (tu_delta cx) 4\<rparr> else cx)
                                     \<lparr>row_score := the (scoreOf r' x)\<rparr>)"
    by blast
  have r': "the (map_of (rooms (fst (snd (handle 4000 ''h'' (HostMarkAnswer ''AAAAAA'' True) ?w))))
                 ''AAAAAA'') = r'"
    unfolding h by (simp add: update_conv')
  have sc': "scoreOf r' ''team0'' = Some 4" using sc [rule_format, of 0] s0 by simp
  have j: "jsAdd 0 4 = 4" by code_simp
  have "cellOf r' ''team0'' = Some \<lparr>p_delta = 0, tu_delta = 4, b_delta = 0, row_score = 4\<rparr>"
    using cells c0 sc' j by simp
  then show ?thesis unfolding r' using e ph sc' by simp
qed

text \<open>
  C3, as stated, fails in two ways. Where the ledger has no row (the host went from the lobby
  straight to the live toss-up), an incorrect answer to an interrupt gives the other team 4
  points, but no \<open>p\<close> delta is recorded, for there is no current row. And the score is a
  double, so that \<^verbatim>\<open>other.score += 4\<close> is rounded: if the other team has the score
  4 + 2.3 (a toss-up and a bonus of 2.3 points), its new score is not the old one plus 4.
\<close>

theorem mark_incorrect_without_row:
  "map (\<lambda>r. (buzz r \<noteq> Unlocked, rows (match r))) (map snd (rooms world_classified_yes))
     = [(True, [])]
   \<and> map (\<lambda>r. (map (\<lambda>t. score (snd t)) (teams r), phase r, tossupLockedTeams r, rows (match r)))
        (map snd (rooms (fst (snd (handle 4000 ''h'' (HostMarkAnswer ''AAAAAA'' False)
                                    world_classified_yes)))))
     = [([0, 4], tossup_reading, [''team0''], [])]
   \<and> map (\<lambda>r. (buzz r \<noteq> Unlocked, map (\<lambda>t. score (snd t)) (teams r)))
        (map snd (rooms world_fraction_yes))
     = [(True, [0, 7093169413108531 / 1125899906842624])]
   \<and> map (\<lambda>r. (map (\<lambda>t. score (snd t)) (teams r), phase r, tossupLockedTeams r))
        (map snd (rooms (fst (snd (handle 9000 ''h'' (HostMarkAnswer ''AAAAAA'' False)
                                    world_fraction_yes)))))
     = [([0, 2899192260119757 / 281474976710656], tossup_reading, [''team0''])]
   \<and> (2899192260119757 / 281474976710656 :: rat) \<noteq> 7093169413108531 / 1125899906842624 + 4"
  by code_simp

text \<open>
  C3, amended. In every reachable room with a locked buzz whose interrupt choice is set,
  when the host marks the answer incorrect the command is carried out and broadcast, the
  buzzing team is added to the locked-out teams whatever the classification, and the buzz is
  cleared. If the buzz was classified as an interrupt, the other team (the first team of
  the room that is not the buzzing one) gets 4 points, its score becoming the double nearest
  to the old score plus 4, which is the old score plus 4 if the old score is an integer (from
  0 to \<open>2 ^ 53 - 5\<close>), and no other score changes, any pending
  end callback is cancelled, and the phase is \<open>tossup_reading\<close> with the toss-up timer reset
  to \<open>tossupSeconds\<close>, paused; if the ledger has a current row, 4 is added in the same way to
  the other team's \<open>p\<close> delta in it and every cell gets the running score of its team, and if the ledger is
  empty nothing is recorded. If the buzz was classified as no interrupt, neither the scores
  nor the ledger change, the phase is \<open>tossup_live\<close>, the timer is restarted with
  \<open>tossupSeconds\<close> and runs, and a new end callback for the room is queued in place of
  the old one.
\<close>

theorem mark_incorrect_locks_out:
  assumes "list_all env_ok evs"
    and "map_of (rooms (run evs init_world)) c = Some r"
    and "hostSocketId r = sid"
    and "buzz r = Locked ws wn t wat (Some i)"
  shows "\<exists>r' s'.
           handle now sid (HostMarkAnswer c False) (run evs init_world) =
             (Done,
              (run evs init_world)\<lparr>rooms := AList.update c r' (rooms (run evs init_world)),
                                     sched := s'\<rparr>,
              [broadcast r' now])
         \<and> tossupLockedTeams r' = setAdd t (tossupLockedTeams r)
         \<and> t \<in> set (tossupLockedTeams r')
         \<and> buzz r' = Unlocked \<and> players r' = players r
         \<and> activeBonusTeamId r' = activeBonusTeamId r
         \<and> (if i then
               (\<exists>other. otherTeamId r t = Some other \<and> other \<noteq> t
                  \<and> (\<exists>s0. scoreOf r other = Some s0 \<and> scoreOf r' other = Some (jsAdd s0 4))
                  \<and> (\<forall>n. scoreOf r other = Some (of_int n) \<and> 0 \<le> n \<and> n + 4 < 2 ^ 53
                        \<longrightarrow> scoreOf r' other = Some (of_int (n + 4)))
                  \<and> (\<forall>x. x \<noteq> other \<longrightarrow> scoreOf r' x = scoreOf r x)
                  \<and> (rows (match r) \<noteq> [] \<longrightarrow> (\<exists>c0. cellOf r other = Some c0))
                  \<and> (\<forall>x cx. cellOf r x = Some cx \<longrightarrow>
                        cellOf r' x = Some ((if x = other then cx\<lparr>p_delta := jsAdd (p_delta cx) 4\<rparr> else cx)
                                          \<lparr>row_score := the (scoreOf r' x)\<rparr>)))
               \<and> (rows (match r) = [] \<longrightarrow> match r' = match r)
               \<and> butlast (rows (match r')) = butlast (rows (match r))
               \<and> map num (rows (match r')) = map num (rows (match r))
               \<and> phase r' = tossup_reading
               \<and> timer r' = \<lparr>mode = tossup, running = False,
                              remainingMs = tossupSeconds (settings r) * 1000, endsAtMs = 0\<rparr>
               \<and> tossupEndTimeout r' = None
               \<and> s' = (sched (run evs init_world))\<lparr>pending :=
                         (case tossupEndTimeout r of
                            None \<Rightarrow> pending (sched (run evs init_world))
                          | Some h \<Rightarrow> AList.delete h (pending (sched (run evs init_world))))\<rparr>
             else
               teams r' = teams r \<and> match r' = match r
               \<and> phase r' = tossup_live
               \<and> timer r' = \<lparr>mode = tossup, running = True,
                              remainingMs = tossupSeconds (settings r) * 1000,
                              endsAtMs = now + tossupSeconds (settings r) * 1000\<rparr>
               \<and> tossupEndTimeout r' = Some (nextTimeoutId (sched (run evs init_world)))
               \<and> s' = (sched (run evs init_world))\<lparr>pending :=
                         (case tossupEndTimeout r of
                            None \<Rightarrow> pending (sched (run evs init_world))
                          | Some h \<Rightarrow> AList.delete h (pending (sched (run evs init_world))))
                         @ [(nextTimeoutId (sched (run evs init_world)), code r,
                             now + tossupSeconds (settings r) * 1000 + 15)],
                         nextTimeoutId := nextTimeoutId (sched (run evs init_world)) + 1\<rparr>)"
proof -
  let ?w = "run evs init_world"
  have ok: "room_ok r" by (rule room_ok_run(1) [OF assms(1,2)])
  then have t: "t \<noteq> []" "t \<in> set (teamIds r)" and l: "ledger_ok r"
    using assms(4) by (simp_all add: room_ok_def room_wf_def)
  obtain tm where tm: "map_of (teams r) t = Some tm" using team_of_id [OF t(2)] by blast
  show ?thesis
  proof (cases i)
    case False
    define r' where "r' = r\<lparr>tossupLockedTeams := setAdd t (tossupLockedTeams r),
                    buzz := Unlocked, phase := tossup_live,
                    timer := \<lparr>mode = tossup, running = True,
                               remainingMs = tossupSeconds (settings r) * 1000,
                               endsAtMs = now + tossupSeconds (settings r) * 1000\<rparr>,
                    tossupEndTimeout := Some (nextTimeoutId (sched ?w))\<rparr>"
    define s' where "s' = (sched ?w)\<lparr>pending :=
                 (case tossupEndTimeout r of None \<Rightarrow> pending (sched ?w)
                  | Some h \<Rightarrow> AList.delete h (pending (sched ?w)))
                 @ [(nextTimeoutId (sched ?w), code r,
                     now + tossupSeconds (settings r) * 1000 + 15)],
                 nextTimeoutId := nextTimeoutId (sched ?w) + 1\<rparr>"
    have b: "buzz r = Locked ws wn t wat (Some False)" using assms(4) False by simp
    have h: "handle now sid (HostMarkAnswer c False) ?w =
             (Done, ?w\<lparr>rooms := AList.update c r' (rooms ?w), sched := s'\<rparr>,
              [broadcast r' now])"
      unfolding r'_def s'_def by (rule markIncorrect_plain_result [OF assms(2,3) b t(1) tm])
    show ?thesis
      apply (rule exI [of _ r'])
      apply (rule exI [of _ s'])
      using h False
      apply (simp add: setAdd_member)
      apply (simp add: r'_def s'_def setAdd_member)
      done
  next
    case True
    obtain other where o: "otherTeamId r t = Some other" "other \<noteq> t" "other \<in> set (teamIds r)"
      using otherTeamId_exists [OF ok] by blast
    obtain om where om: "map_of (teams r) other = Some om" using team_of_id [OF o(3)] by blast
    define r0 where "r0 = clearBuzz (r\<lparr>tossupLockedTeams := setAdd t (tossupLockedTeams r)\<rparr>)"
    define r3 where "r3 = refreshRowScores (addRowDelta other Field_p 4 (addScore other 4 r0))"
    define r' where "r' = resetTimerFull tossup False now
                            (r3\<lparr>tossupEndTimeout := None, phase := tossup_reading\<rparr>)"
    define s' where "s' = (sched ?w)\<lparr>pending :=
                   (case tossupEndTimeout r of
                      None \<Rightarrow> pending (sched ?w)
                    | Some h \<Rightarrow> AList.delete h (pending (sched ?w)))\<rparr>"
    have b: "buzz r = Locked ws wn t wat (Some True)" using assms(4) True by simp
    have h: "handle now sid (HostMarkAnswer c False) ?w =
             (Done, ?w\<lparr>rooms := AList.update c r' (rooms ?w), sched := s'\<rparr>,
              [broadcast r' now])"
      unfolding r'_def r3_def r0_def s'_def
      by (rule markIncorrect_interrupt_result [OF assms(2,3) b t(1) tm o(1) om])
    have ok0: "room_ok r0" using ok by (simp add: r0_def room_ok_lock_clear)
    have fr0: "scoreOf r0 = scoreOf r" "cellOf r0 = cellOf r" "match r0 = match r"
      by (simp_all add: r0_def) (simp add: clearBuzz_def)
    have sc: "scoreOf r' = scoreOf (addScore other 4 r0)"
      by (simp add: r'_def r3_def)
    have s1: "\<exists>s0. scoreOf r other = Some s0 \<and> scoreOf r' other = Some (jsAdd s0 4)"
      using om by (simp add: sc scoreOf_addScore fr0) (simp add: scoreOf_def)
    have s1': "\<forall>n. scoreOf r other = Some (of_int n) \<and> 0 \<le> n \<and> n + 4 < 2 ^ 53
                        \<longrightarrow> scoreOf r' other = Some (of_int (n + 4))"
      using jsAdd_exact [of _ 4] by (simp add: sc scoreOf_addScore fr0)
    have s2: "\<forall>x. x \<noteq> other \<longrightarrow> scoreOf r' x = scoreOf r x"
      by (simp add: sc scoreOf_addScore fr0)
    have f: "tossupLockedTeams r' = setAdd t (tossupLockedTeams r)" "buzz r' = Unlocked"
       "players r' = players r" "activeBonusTeamId r' = activeBonusTeamId r"
       "phase r' = tossup_reading"
       "timer r' = \<lparr>mode = tossup, running = False,
                      remainingMs = tossupSeconds (settings r) * 1000, endsAtMs = 0\<rparr>"
       "tossupEndTimeout r' = None"
      by (simp_all add: r'_def r3_def r0_def resetTimerFull_def setTimer_def clearBuzz_def Let_def
          refreshRowScores_fields addRowDelta_fields addScore_fields)
    have m: "match r' = match r3"
      by (simp add: r'_def resetTimerFull_def setTimer_def Let_def)
    have m': "cellOf r' = cellOf r3"
      by (simp add: r'_def)
    have e: "rows (match r) = [] \<longrightarrow> match r' = match r"
      unfolding m r3_def using scored_ledger(1) [OF ok0, of other Field_p] by (simp add: fr0)
    have ne: "rows (match r) \<noteq> [] \<longrightarrow> (\<exists>c0. cellOf r other = Some c0)"
      using cellOf_of_id [OF l _ o(3)] by blast
    have cells: "\<forall>x cx. cellOf r x = Some cx \<longrightarrow>
                 cellOf r' x = Some ((if x = other then cx\<lparr>p_delta := jsAdd (p_delta cx) 4\<rparr> else cx)
                                          \<lparr>row_score := the (scoreOf r' x)\<rparr>)"
    proof (intro allI impI)
      fix x cx
      assume "cellOf r x = Some cx"
      then have "cellOf r0 x = Some cx" by (simp add: fr0)
      from scored_ledger(2) [OF ok0 this, of other Field_p]
      show "cellOf r' x = Some ((if x = other then cx\<lparr>p_delta := jsAdd (p_delta cx) 4\<rparr> else cx)
                                          \<lparr>row_score := the (scoreOf r' x)\<rparr>)"
        by (simp add: m' sc r3_def addField_def)
    qed
    have shape: "butlast (rows (match r')) = butlast (rows (match r))"
       "map num (rows (match r')) = map num (rows (match r))"
      by (simp_all add: m r3_def rows_shape_refreshRowScores rows_shape_addRowDelta
          addScore_fields fr0)
    have body: "\<exists>other. otherTeamId r t = Some other \<and> other \<noteq> t
                  \<and> (\<exists>s0. scoreOf r other = Some s0 \<and> scoreOf r' other = Some (jsAdd s0 4))
                  \<and> (\<forall>n. scoreOf r other = Some (of_int n) \<and> 0 \<le> n \<and> n + 4 < 2 ^ 53
                        \<longrightarrow> scoreOf r' other = Some (of_int (n + 4)))
                  \<and> (\<forall>x. x \<noteq> other \<longrightarrow> scoreOf r' x = scoreOf r x)
                  \<and> (rows (match r) \<noteq> [] \<longrightarrow> (\<exists>c0. cellOf r other = Some c0))
                  \<and> (\<forall>x cx. cellOf r x = Some cx \<longrightarrow>
                        cellOf r' x = Some ((if x = other then cx\<lparr>p_delta := jsAdd (p_delta cx) 4\<rparr> else cx)
                                          \<lparr>row_score := the (scoreOf r' x)\<rparr>))"
      using o(1,2) s1 s1' s2 ne cells by blast
    show ?thesis
      apply (rule exI [of _ r'])
      apply (rule exI [of _ s'])
      using h True body f e shape
      apply (simp add: setAdd_member s'_def)
      done
  qed
qed

theorem mark_incorrect_locks_out_witness:
  "list_all env_ok trace_row_yes
   \<and> tossupLockedTeams (the (map_of (rooms (fst (snd (handle 4000 ''h''
          (HostMarkAnswer ''AAAAAA'' False) (run trace_row_yes init_world))))) ''AAAAAA''))
       = [''team0'']
   \<and> buzz (the (map_of (rooms (fst (snd (handle 4000 ''h''
          (HostMarkAnswer ''AAAAAA'' False) (run trace_row_yes init_world))))) ''AAAAAA''))
       = Unlocked
   \<and> phase (the (map_of (rooms (fst (snd (handle 4000 ''h''
          (HostMarkAnswer ''AAAAAA'' False) (run trace_row_yes init_world))))) ''AAAAAA''))
       = tossup_reading
   \<and> scoreOf (the (map_of (rooms (fst (snd (handle 4000 ''h''
          (HostMarkAnswer ''AAAAAA'' False) (run trace_row_yes init_world))))) ''AAAAAA'')) ''team1''
       = Some 4
   \<and> cellOf (the (map_of (rooms (fst (snd (handle 4000 ''h''
          (HostMarkAnswer ''AAAAAA'' False) (run trace_row_yes init_world))))) ''AAAAAA'')) ''team1''
       = Some \<lparr>p_delta = 4, tu_delta = 0, b_delta = 0, row_score = 4\<rparr>"
proof -
  let ?w = "run trace_row_yes init_world"
  let ?R = "snd (hd (rooms ?w))"
  have e: "list_all env_ok trace_row_yes" by code_simp
  have m: "map_of (rooms ?w) ''AAAAAA'' = Some ?R" by code_simp
  have hs: "hostSocketId ?R = ''h''" by code_simp
  have b: "buzz ?R = Locked ''a'' ''Al'' ''team0'' 3000 (Some True)" by code_simp
  have ot: "otherTeamId ?R ''team0'' = Some ''team1''" by code_simp
  have s0: "scoreOf ?R ''team1'' = Some 0" by code_simp
  have c0: "cellOf ?R ''team1'' = Some \<lparr>p_delta = 0, tu_delta = 0, b_delta = 0, row_score = 0\<rparr>"
    by code_simp
  have l0: "setAdd ''team0'' (tossupLockedTeams ?R) = [''team0'']" by code_simp
  from mark_incorrect_locks_out [OF e m hs b, of 4000]
  obtain r' s' where
    h: "handle 4000 ''h'' (HostMarkAnswer ''AAAAAA'' False) ?w =
          (Done, ?w\<lparr>rooms := AList.update ''AAAAAA'' r' (rooms ?w), sched := s'\<rparr>,
           [broadcast r' 4000])"
    and lk: "tossupLockedTeams r' = setAdd ''team0'' (tossupLockedTeams ?R)" "buzz r' = Unlocked"
    and br: "\<exists>other. otherTeamId ?R ''team0'' = Some other \<and> other \<noteq> ''team0''
              \<and> (\<exists>s0. scoreOf ?R other = Some s0 \<and> scoreOf r' other = Some (jsAdd s0 4))
                  \<and> (\<forall>n. scoreOf ?R other = Some (of_int n) \<and> 0 \<le> n \<and> n + 4 < 2 ^ 53
                        \<longrightarrow> scoreOf r' other = Some (of_int (n + 4)))
              \<and> (\<forall>x. x \<noteq> other \<longrightarrow> scoreOf r' x = scoreOf ?R x)
              \<and> (rows (match ?R) \<noteq> [] \<longrightarrow> (\<exists>c0. cellOf ?R other = Some c0))
              \<and> (\<forall>x cx. cellOf ?R x = Some cx \<longrightarrow>
                    cellOf r' x = Some ((if x = other then cx\<lparr>p_delta := jsAdd (p_delta cx) 4\<rparr> else cx)
                                          \<lparr>row_score := the (scoreOf r' x)\<rparr>))"
    and ph: "phase r' = tossup_reading"
    by (simp only: if_True) blast
  from br ot have sc: "\<forall>n. scoreOf ?R ''team1'' = Some (of_int n) \<and> 0 \<le> n \<and> n + 4 < 2 ^ 53
                        \<longrightarrow> scoreOf r' ''team1'' = Some (of_int (n + 4))"
    and cells: "\<forall>x cx. cellOf ?R x = Some cx \<longrightarrow>
                    cellOf r' x = Some ((if x = ''team1'' then cx\<lparr>p_delta := jsAdd (p_delta cx) 4\<rparr> else cx)
                                          \<lparr>row_score := the (scoreOf r' x)\<rparr>)"
    by auto
  have r': "the (map_of (rooms (fst (snd (handle 4000 ''h'' (HostMarkAnswer ''AAAAAA'' False) ?w))))
                 ''AAAAAA'') = r'"
    unfolding h by (simp add: update_conv')
  have sc': "scoreOf r' ''team1'' = Some 4" using sc [rule_format, of 0] s0 by simp
  have j: "jsAdd 0 4 = 4" by code_simp
  have "cellOf r' ''team1'' = Some \<lparr>p_delta = 4, tu_delta = 0, b_delta = 0, row_score = 4\<rparr>"
    using cells c0 sc' j by simp
  then show ?thesis unfolding r' using e ph sc' lk l0 by simp
qed

text \<open>
  C2, as stated, fails in its last part: the lockout set is emptied not only by
  start-tossup-reading but also by award-bonus and skip-bonus, and done-reading-tossup leads
  from the lobby to a live toss-up. Here the first team is in the lockout set of a room in
  the bonus phase; the host skips the bonus and finishes reading, without any
  start-tossup-reading, and the player of the first team buzzes and gets the lock.
\<close>

theorem locked_out_team_buzzes_after_bonus:
  "map (\<lambda>r. (phase r, tossupLockedTeams r)) (map snd (rooms (run trace_bonus init_world)))
     = [(bonus_reading, [''team0''])]
   \<and> map (\<lambda>r. (phase r, tossupLockedTeams r, buzz r))
        (map snd (rooms (run [Command 5000 ''h'' (HostSkipBonus ''AAAAAA''),
                              Command 5100 ''h'' (HostDoneReadingTossup ''AAAAAA''),
                              Command 5200 ''a'' (Buzz ''AAAAAA'')]
                             (run trace_bonus init_world))))
     = [(tossup_live, [], Locked ''a'' ''Al'' ''team0'' 5200 None)]"
  by code_simp

text \<open>
  C2, amended. In every reachable room, a buzz command succeeds only if the buzz is not
  locked and the caller is a player whose team is not in the lockout set, and it then locks
  the buzz to that caller; a buzz while the buzz is locked, or from a player of a locked-out
  team, is dropped and changes nothing, so that at most one winner holds the lock. A team in
  the lockout set stays there, and never holds the lock, through every sequence of events
  that contains none of those that end the lockout: start-tossup-reading, award-bonus or
  skip-bonus for the room (each assigns a new empty set), the disconnect of the room's host,
  and the creation of a room under the same code.
\<close>

theorem lockout_lasts_until_reset:
  assumes "list_all env_ok evs0" and "map_of (rooms (run evs0 init_world)) c = Some r"
  shows "(\<forall>now sid cc w' es.
            cc = c \<and> handle now sid (Buzz cc) (run evs0 init_world) = (Done, w', es) \<longrightarrow>
              buzz r = Unlocked
              \<and> (\<exists>pl tid r'. map_of (players r) sid = Some pl \<and> teamId pl = Some tid
                    \<and> tid \<notin> set (tossupLockedTeams r)
                    \<and> map_of (rooms w') c = Some r'
                    \<and> buzz r' = Locked sid (name pl) tid now None))
         \<and> (\<forall>now sid cc.
              cc = c
              \<and> (buzz r \<noteq> Unlocked
                  \<or> (\<exists>pl tid. map_of (players r) sid = Some pl \<and> teamId pl = Some tid
                        \<and> tid \<in> set (tossupLockedTeams r))) \<longrightarrow>
              handle now sid (Buzz cc) (run evs0 init_world) = (Dropped, run evs0 init_world, []))
         \<and> (\<forall>t evs.
              t \<in> set (tossupLockedTeams r) \<and> list_all env_ok evs
              \<and> list_all (\<lambda>e. \<not> endsLockout c (hostSocketId r) e) evs \<longrightarrow>
              (\<exists>r'. map_of (rooms (run evs (run evs0 init_world))) c = Some r'
                    \<and> t \<in> set (tossupLockedTeams r') \<and> \<not> holdsLock r' t))"
proof (intro conjI allI impI)
  fix now sid cc w' es
  assume a: "cc = c \<and> handle now sid (Buzz cc) (run evs0 init_world) = (Done, w', es)"
  from handle_buzz_done [of now sid cc "run evs0 init_world" w' es] a assms(2)
  show "buzz r = Unlocked" by auto
  from handle_buzz_done [of now sid cc "run evs0 init_world" w' es] a assms(2)
  show "\<exists>pl tid r'. map_of (players r) sid = Some pl \<and> teamId pl = Some tid
                    \<and> tid \<notin> set (tossupLockedTeams r)
                    \<and> map_of (rooms w') c = Some r'
                    \<and> buzz r' = Locked sid (name pl) tid now None"
    by auto
next
  fix now sid cc
  assume a: "cc = c
              \<and> (buzz r \<noteq> Unlocked
                  \<or> (\<exists>pl tid. map_of (players r) sid = Some pl \<and> teamId pl = Some tid
                        \<and> tid \<in> set (tossupLockedTeams r)))"
  then have m: "map_of (rooms (run evs0 init_world)) cc = Some r"
    using assms(2) by simp
  from a show "handle now sid (Buzz cc) (run evs0 init_world) = (Dropped, run evs0 init_world, [])"
    by (intro handle_buzz_conflict [OF m]) simp
next
  fix t evs
  assume a: "t \<in> set (tossupLockedTeams r) \<and> list_all env_ok evs
              \<and> list_all (\<lambda>e. \<not> endsLockout c (hostSocketId r) e) evs"
  have ok0: "world_ok (run evs0 init_world)" by (rule world_ok_run [OF assms(1)])
  from a have e: "list_all env_ok evs"
    and n: "list_all (\<lambda>e. \<not> endsLockout c (hostSocketId r) e) evs" by simp_all
  from run_keeps_lockout [OF ok0 e assms(2) n]
  obtain r' where r': "map_of (rooms (run evs (run evs0 init_world))) c = Some r'" "grows r r'"
    by blast
  have "world_ok (run evs (run evs0 init_world))" by (rule world_ok_run_from [OF ok0 e])
  with r'(1) have "room_ok r'" by (auto simp: world_ok_def dest!: map_of_SomeD)
  moreover from a r'(2) have t: "t \<in> set (tossupLockedTeams r')" by (auto simp: grows_def)
  ultimately have "\<not> holdsLock r' t" by (auto simp: room_ok_def room_wf_def holdsLock_def)
  with r'(1) t show "\<exists>r'. map_of (rooms (run evs (run evs0 init_world))) c = Some r'
                    \<and> t \<in> set (tossupLockedTeams r') \<and> \<not> holdsLock r' t"
    by blast
qed

theorem lockout_lasts_until_reset_witness:
  "list_all env_ok trace_locked_out
   \<and> ''team0'' \<in> set (tossupLockedTeams (snd (hd (rooms (run trace_locked_out init_world)))))
   \<and> handle 4100 ''a'' (Buzz ''AAAAAA'') (run trace_locked_out init_world)
       = (Dropped, run trace_locked_out init_world, [])
   \<and> ''team0'' \<in> set (tossupLockedTeams (the (map_of (rooms
         (run [Command 4200 ''b'' (Buzz ''AAAAAA''),
               Command 4300 ''h'' (HostClearBuzz ''AAAAAA''),
               Command 4400 ''a'' (Buzz ''AAAAAA''),
               Command 4500 ''h'' (HostDoneReadingTossup ''AAAAAA'')]
              (run trace_locked_out init_world))) ''AAAAAA'')))
   \<and> \<not> holdsLock (the (map_of (rooms
         (run [Command 4200 ''b'' (Buzz ''AAAAAA''),
               Command 4300 ''h'' (HostClearBuzz ''AAAAAA''),
               Command 4400 ''a'' (Buzz ''AAAAAA''),
               Command 4500 ''h'' (HostDoneReadingTossup ''AAAAAA'')]
              (run trace_locked_out init_world))) ''AAAAAA'')) ''team0''"
proof -
  let ?w = "run trace_locked_out init_world"
  let ?R = "snd (hd (rooms ?w))"
  let ?evs = "[Command 4200 ''b'' (Buzz ''AAAAAA''),
               Command 4300 ''h'' (HostClearBuzz ''AAAAAA''),
               Command 4400 ''a'' (Buzz ''AAAAAA''),
               Command 4500 ''h'' (HostDoneReadingTossup ''AAAAAA'')]"
  have e0: "list_all env_ok trace_locked_out" by code_simp
  have m: "map_of (rooms ?w) ''AAAAAA'' = Some ?R" by code_simp
  have t: "''team0'' \<in> set (tossupLockedTeams ?R)" by code_simp
  have pl: "map_of (players ?R) ''a''
              = Some \<lparr>socketId = ''a'', name = ''Al'', teamId = Some ''team0'', isHost = False,
                      isSpectator = False\<rparr>"
    by code_simp
  have e: "list_all env_ok ?evs" by simp
  have hst: "hostSocketId ?R = ''h''" by code_simp
  have ne: "list_all (\<lambda>e. \<not> endsLockout ''AAAAAA'' (hostSocketId ?R) e) ?evs"
    by simp
  note main = lockout_lasts_until_reset [OF e0 m]
  have c: "''AAAAAA'' = ''AAAAAA''
           \<and> (buzz ?R \<noteq> Unlocked
               \<or> (\<exists>pl tid. map_of (players ?R) ''a'' = Some pl \<and> teamId pl = Some tid
                     \<and> tid \<in> set (tossupLockedTeams ?R)))"
    using t by (simp only: pl) simp
  have d: "handle 4100 ''a'' (Buzz ''AAAAAA'') ?w = (Dropped, ?w, [])"
    by (rule main [THEN conjunct2, THEN conjunct1, rule_format, OF c])
  have "\<exists>r'. map_of (rooms (run ?evs ?w)) ''AAAAAA'' = Some r'
              \<and> ''team0'' \<in> set (tossupLockedTeams r') \<and> \<not> holdsLock r' ''team0''"
    by (rule main [THEN conjunct2, THEN conjunct2, rule_format]) (intro conjI t e ne)
  then obtain r' where r': "map_of (rooms (run ?evs ?w)) ''AAAAAA'' = Some r'"
     "''team0'' \<in> set (tossupLockedTeams r')" "\<not> holdsLock r' ''team0''"
    by blast
  have s: "the (map_of (rooms (run ?evs ?w)) ''AAAAAA'') = r'"
    by (simp only: r'(1) option.sel)
  show ?thesis
    unfolding s by (intro conjI e0 t d r'(2) r'(3))
qed

end
